theory Spec2Isabelle
  imports Main "HOL-Library.Word"
begin

unbundle bit_operations_syntax

section \<open>The CHIP-8 machine state (src/chip8/cpu.go)\<close>

text \<open>
  The Go struct \<^verbatim>\<open>Chip8\<close> holds fixed-size arrays. They are lists here; the
  sizes the Go types fix are collected in \<open>wf_chip8\<close> below. Go checks every array index at
  run time and panics when it is out of range. Where the type of the index allows a value
  beyond the array (a \<^verbatim>\<open>uint16\<close> into \<^verbatim>\<open>memory\<close>, a \<^verbatim>\<open>uint8\<close> into
  \<^verbatim>\<open>stack\<close> or \<^verbatim>\<open>keys\<close>) the check is written out and the panic is the value
  \<open>Inl IndexOutOfRange\<close>; a panic aborts the step, so no state comes with it. Where the
  index cannot leave the array (a 4-bit register number into \<^verbatim>\<open>V\<close>, the constant
  \<^verbatim>\<open>0xF\<close>, a \<^verbatim>\<open>uint8\<close> into the 2048 pixels of \<^verbatim>\<open>display\<close>, the loop counter
  below 16 into \<^verbatim>\<open>keys\<close>) the access is written with \<open>!\<close> and \<open>[:=]\<close> directly.
  The diagnostic line printed for an unknown opcode is not part of the state and is left out.
  The random byte of \<^verbatim>\<open>rand.Intn(256)\<close> is a parameter \<open>rnd\<close> of the step.
\<close>

type_synonym u8 = "8 word"
type_synonym u16 = "16 word"

definition MemorySize :: nat where "MemorySize = 4096"
definition RegisterCount :: nat where "RegisterCount = 16"
definition StackSize :: nat where "StackSize = 16"
definition ScreenWidth :: nat where "ScreenWidth = 64"
definition ScreenHeight :: nat where "ScreenHeight = 32"
definition FontsetSize :: nat where "FontsetSize = 80"

record chip8 =
  memory :: "u8 list"
  V :: "u8 list"
  I :: u16
  PC :: u16
  stack :: "u16 list"
  SP :: u8
  delayTimer :: u8
  soundTimer :: u8
  display :: "u8 list"
  keys :: "bool list"
  drawFlag :: bool

datatype error = IndexOutOfRange | RomTooLarge nat nat

definition wf_chip8 :: "chip8 \<Rightarrow> bool" where
  "wf_chip8 c \<longleftrightarrow> length (memory c) = 4096 \<and> length (V c) = 16 \<and> length (stack c) = 16
     \<and> length (display c) = 2048 \<and> length (keys c) = 16"

definition fontset :: "u8 list" where
  "fontset =
   [0xF0, 0x90, 0x90, 0x90, 0xF0,
    0x20, 0x60, 0x20, 0x20, 0x70,
    0xF0, 0x10, 0xF0, 0x80, 0xF0,
    0xF0, 0x10, 0xF0, 0x10, 0xF0,
    0x90, 0x90, 0xF0, 0x10, 0x10,
    0xF0, 0x80, 0xF0, 0x10, 0xF0,
    0xF0, 0x80, 0xF0, 0x90, 0xF0,
    0xF0, 0x10, 0x20, 0x40, 0x40,
    0xF0, 0x90, 0xF0, 0x90, 0xF0,
    0xF0, 0x90, 0xF0, 0x10, 0xF0,
    0xF0, 0x90, 0xF0, 0x90, 0x90,
    0xE0, 0x90, 0xE0, 0x90, 0xE0,
    0xF0, 0x80, 0x80, 0x80, 0xF0,
    0xE0, 0x90, 0x90, 0x90, 0xE0,
    0xF0, 0x80, 0xF0, 0x80, 0xF0,
    0xF0, 0x80, 0xF0, 0x80, 0x80]"

text \<open>Go's built-in \<^verbatim>\<open>copy(dst, src)\<close>: the first \<open>min (len dst) (len src)\<close> elements
  of \<open>dst\<close> are overwritten.\<close>

definition copy_go :: "'a list \<Rightarrow> 'a list \<Rightarrow> 'a list" where
  "copy_go dst src = (let n = min (length dst) (length src) in take n src @ drop n dst)"

text \<open>\<^verbatim>\<open>New\<close>: the zero value of the struct with \<^verbatim>\<open>PC: 0x200\<close>, then
  \<^verbatim>\<open>copy(c.memory[:FontsetSize], fontset[:])\<close>.\<close>

definition zero_chip8 :: chip8 where
  "zero_chip8 = \<lparr> memory = replicate 4096 0, V = replicate 16 0, I = 0, PC = 0,
     stack = replicate 16 0, SP = 0, delayTimer = 0, soundTimer = 0,
     display = replicate (64 * 32) 0, keys = replicate 16 False, drawFlag = False \<rparr>"

definition New :: chip8 where
  "New = (let c = zero_chip8\<lparr>PC := 0x200\<rparr>
          in c\<lparr>memory := copy_go (take 80 (memory c)) fontset @ drop 80 (memory c)\<rparr>)"

text \<open>\<^verbatim>\<open>LoadROM\<close> mutates the receiver and returns an error value or \<^verbatim>\<open>nil\<close>: the
  model returns the machine afterwards together with the optional error.\<close>

definition LoadROM :: "u8 list \<Rightarrow> chip8 \<Rightarrow> chip8 \<times> error option" where
  "LoadROM rom c =
     (if length rom > 4096 - 0x200 then (c, Some (RomTooLarge (length rom) (4096 - 0x200)))
      else (c\<lparr>memory := take 0x200 (memory c) @ copy_go (drop 0x200 (memory c)) rom\<rparr>, None))"

section \<open>Sprite drawing\<close>

text \<open>The body of the column loop of \<^verbatim>\<open>drawSprite\<close>. All of \<open>xPos\<close>, \<open>yPos\<close>,
  \<open>row\<close>, \<open>col\<close> are \<^verbatim>\<open>uint8\<close>, and so is \<open>pixelIndex\<close>: the product
  \<^verbatim>\<open>screenY*ScreenWidth\<close> is computed in 8 bits.\<close>

definition pixelIndex :: "u8 \<Rightarrow> u8 \<Rightarrow> u8 \<Rightarrow> u8 \<Rightarrow> u8" where
  "pixelIndex xPos yPos row col =
     (let screenX = (xPos + col) mod 64;
          screenY = (yPos + row) mod 32
      in screenY * 64 + screenX)"

text \<open>The test \<^verbatim>\<open>(spriteData & (0x80 >> col)) != 0\<close>.\<close>

definition spriteBit :: "u8 \<Rightarrow> u8 \<Rightarrow> bool" where
  "spriteBit spriteData col \<longleftrightarrow> spriteData AND drop_bit (unat col) 0x80 \<noteq> 0"

definition drawPixel :: "u8 \<Rightarrow> u8 \<Rightarrow> u8 \<Rightarrow> u8 \<Rightarrow> u8 \<Rightarrow> chip8 \<Rightarrow> chip8" where
  "drawPixel spriteData xPos yPos row col c =
     (if spriteBit spriteData col then
        let p = unat (pixelIndex xPos yPos row col);
            c = (if display c ! p = 1 then c\<lparr>V := (V c)[15 := 1]\<rparr> else c)
        in c\<lparr>display := (display c)[p := display c ! p XOR 1]\<rparr>
      else c)"

primrec drawCols :: "u8 \<Rightarrow> u8 \<Rightarrow> u8 \<Rightarrow> u8 \<Rightarrow> nat list \<Rightarrow> chip8 \<Rightarrow> chip8" where
  "drawCols spriteData xPos yPos row [] c = c"
| "drawCols spriteData xPos yPos row (col # cols) c =
     drawCols spriteData xPos yPos row cols (drawPixel spriteData xPos yPos row (of_nat col) c)"

primrec drawRows :: "u8 \<Rightarrow> u8 \<Rightarrow> nat list \<Rightarrow> chip8 \<Rightarrow> error + chip8" where
  "drawRows xPos yPos [] c = Inr c"
| "drawRows xPos yPos (row # rows) c =
     (let a = unat (I c + of_nat row) in
      if a < length (memory c) then
        drawRows xPos yPos rows (drawCols (memory c ! a) xPos yPos (of_nat row) [0..<8] c)
      else Inl IndexOutOfRange)"

definition drawSprite :: "u8 \<Rightarrow> u8 \<Rightarrow> u8 \<Rightarrow> chip8 \<Rightarrow> error + chip8" where
  "drawSprite x y height c =
     (let c = c\<lparr>V := (V c)[15 := 0]\<rparr>;
          xPos = V c ! unat x mod 64;
          yPos = V c ! unat y mod 32
      in case drawRows xPos yPos [0..<unat height] c of
           Inl e \<Rightarrow> Inl e
         | Inr c \<Rightarrow> Inr (c\<lparr>drawFlag := True\<rparr>))"

section \<open>The instructions\<close>

text \<open>One definition for each arm of the switch in \<^verbatim>\<open>executeOpcode\<close>, named by the
  opcode pattern of its comment. Statements run in the order of the source: a read of a
  register after a write sees the write.\<close>

definition op_unknown :: "chip8 \<Rightarrow> chip8" where
  "op_unknown c = c\<lparr>PC := PC c + 2\<rparr>"

definition op_00E0 :: "chip8 \<Rightarrow> chip8" where
  "op_00E0 c = (let c = c\<lparr>display := map (\<lambda>_. 0) (display c)\<rparr>;
                    c = c\<lparr>drawFlag := True\<rparr>
                in c\<lparr>PC := PC c + 2\<rparr>)"

definition op_00EE :: "chip8 \<Rightarrow> error + chip8" where
  "op_00EE c = (let c = c\<lparr>SP := SP c - 1\<rparr> in
                if unat (SP c) < length (stack c) then
                  let c = c\<lparr>PC := stack c ! unat (SP c)\<rparr> in Inr (c\<lparr>PC := PC c + 2\<rparr>)
                else Inl IndexOutOfRange)"

definition op_1nnn :: "u16 \<Rightarrow> chip8 \<Rightarrow> chip8" where
  "op_1nnn nnn c = c\<lparr>PC := nnn\<rparr>"

definition op_2nnn :: "u16 \<Rightarrow> chip8 \<Rightarrow> error + chip8" where
  "op_2nnn nnn c = (if unat (SP c) < length (stack c) then
                      let c = c\<lparr>stack := (stack c)[unat (SP c) := PC c]\<rparr>;
                          c = c\<lparr>SP := SP c + 1\<rparr>
                      in Inr (c\<lparr>PC := nnn\<rparr>)
                    else Inl IndexOutOfRange)"

definition op_3xkk :: "u8 \<Rightarrow> u8 \<Rightarrow> chip8 \<Rightarrow> chip8" where
  "op_3xkk x kk c = (if V c ! unat x = kk then c\<lparr>PC := PC c + 4\<rparr> else c\<lparr>PC := PC c + 2\<rparr>)"

definition op_4xkk :: "u8 \<Rightarrow> u8 \<Rightarrow> chip8 \<Rightarrow> chip8" where
  "op_4xkk x kk c = (if V c ! unat x \<noteq> kk then c\<lparr>PC := PC c + 4\<rparr> else c\<lparr>PC := PC c + 2\<rparr>)"

definition op_5xy0 :: "u8 \<Rightarrow> u8 \<Rightarrow> chip8 \<Rightarrow> chip8" where
  "op_5xy0 x y c =
     (if V c ! unat x = V c ! unat y then c\<lparr>PC := PC c + 4\<rparr> else c\<lparr>PC := PC c + 2\<rparr>)"

definition op_6xkk :: "u8 \<Rightarrow> u8 \<Rightarrow> chip8 \<Rightarrow> chip8" where
  "op_6xkk x kk c = (let c = c\<lparr>V := (V c)[unat x := kk]\<rparr> in c\<lparr>PC := PC c + 2\<rparr>)"

definition op_7xkk :: "u8 \<Rightarrow> u8 \<Rightarrow> chip8 \<Rightarrow> chip8" where
  "op_7xkk x kk c =
     (let c = c\<lparr>V := (V c)[unat x := V c ! unat x + kk]\<rparr> in c\<lparr>PC := PC c + 2\<rparr>)"

definition op_8xy0 :: "u8 \<Rightarrow> u8 \<Rightarrow> chip8 \<Rightarrow> chip8" where
  "op_8xy0 x y c =
     (let c = c\<lparr>V := (V c)[unat x := V c ! unat y]\<rparr> in c\<lparr>PC := PC c + 2\<rparr>)"

definition op_8xy1 :: "u8 \<Rightarrow> u8 \<Rightarrow> chip8 \<Rightarrow> chip8" where
  "op_8xy1 x y c =
     (let c = c\<lparr>V := (V c)[unat x := V c ! unat x OR V c ! unat y]\<rparr> in c\<lparr>PC := PC c + 2\<rparr>)"

definition op_8xy2 :: "u8 \<Rightarrow> u8 \<Rightarrow> chip8 \<Rightarrow> chip8" where
  "op_8xy2 x y c =
     (let c = c\<lparr>V := (V c)[unat x := V c ! unat x AND V c ! unat y]\<rparr> in c\<lparr>PC := PC c + 2\<rparr>)"

definition op_8xy3 :: "u8 \<Rightarrow> u8 \<Rightarrow> chip8 \<Rightarrow> chip8" where
  "op_8xy3 x y c =
     (let c = c\<lparr>V := (V c)[unat x := V c ! unat x XOR V c ! unat y]\<rparr> in c\<lparr>PC := PC c + 2\<rparr>)"

definition op_8xy4 :: "u8 \<Rightarrow> u8 \<Rightarrow> chip8 \<Rightarrow> chip8" where
  "op_8xy4 x y c =
     (let sum = (ucast (V c ! unat x) :: u16) + ucast (V c ! unat y);
          c = c\<lparr>V := (V c)[15 := 0]\<rparr>;
          c = (if sum > 0xFF then c\<lparr>V := (V c)[15 := 1]\<rparr> else c);
          c = c\<lparr>V := (V c)[unat x := ucast sum]\<rparr>
      in c\<lparr>PC := PC c + 2\<rparr>)"

definition op_8xy5 :: "u8 \<Rightarrow> u8 \<Rightarrow> chip8 \<Rightarrow> chip8" where
  "op_8xy5 x y c =
     (let c = c\<lparr>V := (V c)[15 := 0]\<rparr>;
          c = (if V c ! unat x > V c ! unat y then c\<lparr>V := (V c)[15 := 1]\<rparr> else c);
          c = c\<lparr>V := (V c)[unat x := V c ! unat x - V c ! unat y]\<rparr>
      in c\<lparr>PC := PC c + 2\<rparr>)"

definition op_8xy6 :: "u8 \<Rightarrow> chip8 \<Rightarrow> chip8" where
  "op_8xy6 x c =
     (let c = c\<lparr>V := (V c)[15 := V c ! unat x AND 0x1]\<rparr>;
          c = c\<lparr>V := (V c)[unat x := drop_bit 1 (V c ! unat x)]\<rparr>
      in c\<lparr>PC := PC c + 2\<rparr>)"

definition op_8xy7 :: "u8 \<Rightarrow> u8 \<Rightarrow> chip8 \<Rightarrow> chip8" where
  "op_8xy7 x y c =
     (let c = c\<lparr>V := (V c)[15 := 0]\<rparr>;
          c = (if V c ! unat y > V c ! unat x then c\<lparr>V := (V c)[15 := 1]\<rparr> else c);
          c = c\<lparr>V := (V c)[unat x := V c ! unat y - V c ! unat x]\<rparr>
      in c\<lparr>PC := PC c + 2\<rparr>)"

definition op_8xyE :: "u8 \<Rightarrow> chip8 \<Rightarrow> chip8" where
  "op_8xyE x c =
     (let c = c\<lparr>V := (V c)[15 := drop_bit 7 (V c ! unat x AND 0x80)]\<rparr>;
          c = c\<lparr>V := (V c)[unat x := push_bit 1 (V c ! unat x)]\<rparr>
      in c\<lparr>PC := PC c + 2\<rparr>)"

definition op_9xy0 :: "u8 \<Rightarrow> u8 \<Rightarrow> chip8 \<Rightarrow> chip8" where
  "op_9xy0 x y c =
     (if V c ! unat x \<noteq> V c ! unat y then c\<lparr>PC := PC c + 4\<rparr> else c\<lparr>PC := PC c + 2\<rparr>)"

definition op_Annn :: "u16 \<Rightarrow> chip8 \<Rightarrow> chip8" where
  "op_Annn nnn c = (let c = c\<lparr>I := nnn\<rparr> in c\<lparr>PC := PC c + 2\<rparr>)"

definition op_Bnnn :: "u16 \<Rightarrow> chip8 \<Rightarrow> chip8" where
  "op_Bnnn nnn c = c\<lparr>PC := nnn + ucast (V c ! 0)\<rparr>"

definition op_Cxkk :: "u8 \<Rightarrow> u8 \<Rightarrow> u8 \<Rightarrow> chip8 \<Rightarrow> chip8" where
  "op_Cxkk rnd x kk c = (let c = c\<lparr>V := (V c)[unat x := rnd AND kk]\<rparr> in c\<lparr>PC := PC c + 2\<rparr>)"

definition op_Dxyn :: "u8 \<Rightarrow> u8 \<Rightarrow> u8 \<Rightarrow> chip8 \<Rightarrow> error + chip8" where
  "op_Dxyn x y n c = (case drawSprite x y n c of
                        Inl e \<Rightarrow> Inl e
                      | Inr c \<Rightarrow> Inr (c\<lparr>PC := PC c + 2\<rparr>))"

definition op_Ex9E :: "u8 \<Rightarrow> chip8 \<Rightarrow> error + chip8" where
  "op_Ex9E x c = (let k = unat (V c ! unat x) in
                  if k < length (keys c) then
                    (if keys c ! k then Inr (c\<lparr>PC := PC c + 4\<rparr>) else Inr (c\<lparr>PC := PC c + 2\<rparr>))
                  else Inl IndexOutOfRange)"

definition op_ExA1 :: "u8 \<Rightarrow> chip8 \<Rightarrow> error + chip8" where
  "op_ExA1 x c = (let k = unat (V c ! unat x) in
                  if k < length (keys c) then
                    (if \<not> keys c ! k then Inr (c\<lparr>PC := PC c + 4\<rparr>) else Inr (c\<lparr>PC := PC c + 2\<rparr>))
                  else Inl IndexOutOfRange)"

definition op_Fx07 :: "u8 \<Rightarrow> chip8 \<Rightarrow> chip8" where
  "op_Fx07 x c = (let c = c\<lparr>V := (V c)[unat x := delayTimer c]\<rparr> in c\<lparr>PC := PC c + 2\<rparr>)"

text \<open>The scan of \<^verbatim>\<open>Fx0A\<close>: the loop over \<open>i = 0 .. 15\<close> that stops at the first
  pressed key.\<close>

primrec scanKeys :: "bool list \<Rightarrow> nat list \<Rightarrow> nat option" where
  "scanKeys ks [] = None"
| "scanKeys ks (i # rest) = (if ks ! i then Some i else scanKeys ks rest)"

definition op_Fx0A :: "u8 \<Rightarrow> chip8 \<Rightarrow> chip8" where
  "op_Fx0A x c = (case scanKeys (keys c) [0..<16] of
                    Some i \<Rightarrow> (let c = c\<lparr>V := (V c)[unat x := of_nat i]\<rparr> in c\<lparr>PC := PC c + 2\<rparr>)
                  | None \<Rightarrow> c)"

definition op_Fx15 :: "u8 \<Rightarrow> chip8 \<Rightarrow> chip8" where
  "op_Fx15 x c = (let c = c\<lparr>delayTimer := V c ! unat x\<rparr> in c\<lparr>PC := PC c + 2\<rparr>)"

definition op_Fx18 :: "u8 \<Rightarrow> chip8 \<Rightarrow> chip8" where
  "op_Fx18 x c = (let c = c\<lparr>soundTimer := V c ! unat x\<rparr> in c\<lparr>PC := PC c + 2\<rparr>)"

definition op_Fx1E :: "u8 \<Rightarrow> chip8 \<Rightarrow> chip8" where
  "op_Fx1E x c = (let c = c\<lparr>I := I c + ucast (V c ! unat x)\<rparr> in c\<lparr>PC := PC c + 2\<rparr>)"

definition op_Fx29 :: "u8 \<Rightarrow> chip8 \<Rightarrow> chip8" where
  "op_Fx29 x c = (let c = c\<lparr>I := ucast (V c ! unat x) * 5\<rparr> in c\<lparr>PC := PC c + 2\<rparr>)"

definition op_Fx33 :: "u8 \<Rightarrow> chip8 \<Rightarrow> error + chip8" where
  "op_Fx33 x c =
     (if unat (I c) < length (memory c) then
        let c = c\<lparr>memory := (memory c)[unat (I c) := V c ! unat x div 100]\<rparr> in
        if unat (I c + 1) < length (memory c) then
          let c = c\<lparr>memory := (memory c)[unat (I c + 1) := (V c ! unat x div 10) mod 10]\<rparr> in
          if unat (I c + 2) < length (memory c) then
            let c = c\<lparr>memory := (memory c)[unat (I c + 2) := V c ! unat x mod 10]\<rparr>
            in Inr (c\<lparr>PC := PC c + 2\<rparr>)
          else Inl IndexOutOfRange
        else Inl IndexOutOfRange
      else Inl IndexOutOfRange)"

primrec storeRegs :: "nat list \<Rightarrow> chip8 \<Rightarrow> error + chip8" where
  "storeRegs [] c = Inr c"
| "storeRegs (i # rest) c =
     (let a = unat (I c + of_nat i) in
      if a < length (memory c) then storeRegs rest (c\<lparr>memory := (memory c)[a := V c ! i]\<rparr>)
      else Inl IndexOutOfRange)"

definition op_Fx55 :: "u8 \<Rightarrow> chip8 \<Rightarrow> error + chip8" where
  "op_Fx55 x c = (case storeRegs [0..<unat x + 1] c of
                    Inl e \<Rightarrow> Inl e
                  | Inr c \<Rightarrow> Inr (c\<lparr>PC := PC c + 2\<rparr>))"

primrec loadRegs :: "nat list \<Rightarrow> chip8 \<Rightarrow> error + chip8" where
  "loadRegs [] c = Inr c"
| "loadRegs (i # rest) c =
     (let a = unat (I c + of_nat i) in
      if a < length (memory c) then loadRegs rest (c\<lparr>V := (V c)[i := memory c ! a]\<rparr>)
      else Inl IndexOutOfRange)"

definition op_Fx65 :: "u8 \<Rightarrow> chip8 \<Rightarrow> error + chip8" where
  "op_Fx65 x c = (case loadRegs [0..<unat x + 1] c of
                    Inl e \<Rightarrow> Inl e
                  | Inr c \<Rightarrow> Inr (c\<lparr>PC := PC c + 2\<rparr>))"

section \<open>Decode, dispatch and the step\<close>

text \<open>The five operand fields that \<^verbatim>\<open>executeOpcode\<close> extracts from the opcode
  (\<^verbatim>\<open>nnn\<close>, \<^verbatim>\<open>n\<close>, \<^verbatim>\<open>x\<close>, \<^verbatim>\<open>y\<close>, \<^verbatim>\<open>kk\<close>).\<close>

definition dec_nnn :: "u16 \<Rightarrow> u16" where
  "dec_nnn opcode = opcode AND 0x0FFF"

definition dec_n :: "u16 \<Rightarrow> u8" where
  "dec_n opcode = ucast (opcode AND 0x000F)"

definition dec_x :: "u16 \<Rightarrow> u8" where
  "dec_x opcode = ucast (drop_bit 8 (opcode AND 0x0F00))"

definition dec_y :: "u16 \<Rightarrow> u8" where
  "dec_y opcode = ucast (drop_bit 4 (opcode AND 0x00F0))"

definition dec_kk :: "u16 \<Rightarrow> u8" where
  "dec_kk opcode = ucast (opcode AND 0x00FF)"

definition exec_0 :: "u16 \<Rightarrow> chip8 \<Rightarrow> error + chip8" where
  "exec_0 opcode c =
     (if opcode = 0x00E0 then Inr (op_00E0 c)
      else if opcode = 0x00EE then op_00EE c
      else Inr (op_unknown c))"

definition exec_8 :: "u16 \<Rightarrow> u8 \<Rightarrow> u8 \<Rightarrow> chip8 \<Rightarrow> chip8" where
  "exec_8 opcode x y c =
     (let sub = opcode AND 0x000F in
      if sub = 0x0000 then op_8xy0 x y c
      else if sub = 0x0001 then op_8xy1 x y c
      else if sub = 0x0002 then op_8xy2 x y c
      else if sub = 0x0003 then op_8xy3 x y c
      else if sub = 0x0004 then op_8xy4 x y c
      else if sub = 0x0005 then op_8xy5 x y c
      else if sub = 0x0006 then op_8xy6 x c
      else if sub = 0x0007 then op_8xy7 x y c
      else if sub = 0x000E then op_8xyE x c
      else op_unknown c)"

definition exec_E :: "u16 \<Rightarrow> u8 \<Rightarrow> chip8 \<Rightarrow> error + chip8" where
  "exec_E opcode x c =
     (let sub = opcode AND 0x00FF in
      if sub = 0x009E then op_Ex9E x c
      else if sub = 0x00A1 then op_ExA1 x c
      else Inr (op_unknown c))"

definition exec_F :: "u16 \<Rightarrow> u8 \<Rightarrow> chip8 \<Rightarrow> error + chip8" where
  "exec_F opcode x c =
     (let sub = opcode AND 0x00FF in
      if sub = 0x0007 then Inr (op_Fx07 x c)
      else if sub = 0x000A then Inr (op_Fx0A x c)
      else if sub = 0x0015 then Inr (op_Fx15 x c)
      else if sub = 0x0018 then Inr (op_Fx18 x c)
      else if sub = 0x001E then Inr (op_Fx1E x c)
      else if sub = 0x0029 then Inr (op_Fx29 x c)
      else if sub = 0x0033 then op_Fx33 x c
      else if sub = 0x0055 then op_Fx55 x c
      else if sub = 0x0065 then op_Fx65 x c
      else Inr (op_unknown c))"

definition executeOpcode :: "u8 \<Rightarrow> u16 \<Rightarrow> chip8 \<Rightarrow> error + chip8" where
  "executeOpcode rnd opcode c =
     (let nnn = dec_nnn opcode;
          n = dec_n opcode;
          x = dec_x opcode;
          y = dec_y opcode;
          kk = dec_kk opcode;
          fam = opcode AND 0xF000
      in if fam = 0x0000 then exec_0 opcode c
         else if fam = 0x1000 then Inr (op_1nnn nnn c)
         else if fam = 0x2000 then op_2nnn nnn c
         else if fam = 0x3000 then Inr (op_3xkk x kk c)
         else if fam = 0x4000 then Inr (op_4xkk x kk c)
         else if fam = 0x5000 then Inr (op_5xy0 x y c)
         else if fam = 0x6000 then Inr (op_6xkk x kk c)
         else if fam = 0x7000 then Inr (op_7xkk x kk c)
         else if fam = 0x8000 then Inr (exec_8 opcode x y c)
         else if fam = 0x9000 then Inr (op_9xy0 x y c)
         else if fam = 0xA000 then Inr (op_Annn nnn c)
         else if fam = 0xB000 then Inr (op_Bnnn nnn c)
         else if fam = 0xC000 then Inr (op_Cxkk rnd x kk c)
         else if fam = 0xD000 then op_Dxyn x y n c
         else if fam = 0xE000 then exec_E opcode x c
         else if fam = 0xF000 then exec_F opcode x c
         else Inr (op_unknown c))"

text \<open>The fetch of \<^verbatim>\<open>EmulateCycle\<close>: two reads of \<^verbatim>\<open>memory\<close>, each checked;
  \<^verbatim>\<open>c.PC+1\<close> is a 16-bit sum.\<close>

definition fetchOpcode :: "chip8 \<Rightarrow> error + u16" where
  "fetchOpcode c =
     (if unat (PC c) < length (memory c) \<and> unat (PC c + 1) < length (memory c) then
        Inr (push_bit 8 (ucast (memory c ! unat (PC c)) :: u16)
             OR ucast (memory c ! unat (PC c + 1)))
      else Inl IndexOutOfRange)"

definition updateTimers :: "chip8 \<Rightarrow> chip8" where
  "updateTimers c =
     (let c = (if delayTimer c > 0 then c\<lparr>delayTimer := delayTimer c - 1\<rparr> else c);
          c = (if soundTimer c > 0 then c\<lparr>soundTimer := soundTimer c - 1\<rparr> else c)
      in c)"

definition EmulateCycle :: "u8 \<Rightarrow> chip8 \<Rightarrow> error + chip8" where
  "EmulateCycle rnd c =
     (case fetchOpcode c of
        Inl e \<Rightarrow> Inl e
      | Inr opcode \<Rightarrow>
          (case executeOpcode rnd opcode c of
             Inl e \<Rightarrow> Inl e
           | Inr c \<Rightarrow> Inr (updateTimers c)))"

text \<open>Opcode patterns as the dispatch recognises them (the two that set a timer, the two that
  store to memory), and the test whether the next fetch yields \<^verbatim>\<open>Fx15\<close>.\<close>

definition is_Fx15 :: "u16 \<Rightarrow> bool" where
  "is_Fx15 opcode \<longleftrightarrow> opcode AND 0xF000 = 0xF000 \<and> opcode AND 0x00FF = 0x0015"

definition is_Fx18 :: "u16 \<Rightarrow> bool" where
  "is_Fx18 opcode \<longleftrightarrow> opcode AND 0xF000 = 0xF000 \<and> opcode AND 0x00FF = 0x0018"

definition is_Fx33 :: "u16 \<Rightarrow> bool" where
  "is_Fx33 opcode \<longleftrightarrow> opcode AND 0xF000 = 0xF000 \<and> opcode AND 0x00FF = 0x0033"

definition is_Fx55 :: "u16 \<Rightarrow> bool" where
  "is_Fx55 opcode \<longleftrightarrow> opcode AND 0xF000 = 0xF000 \<and> opcode AND 0x00FF = 0x0055"

definition fetches_Fx15 :: "chip8 \<Rightarrow> bool" where
  "fetches_Fx15 c \<longleftrightarrow> (case fetchOpcode c of Inr opcode \<Rightarrow> is_Fx15 opcode | Inl e \<Rightarrow> False)"

section \<open>The host-facing accessors\<close>

definition SetKey :: "u8 \<Rightarrow> bool \<Rightarrow> chip8 \<Rightarrow> chip8" where
  "SetKey key pressed c = (if key < 16 then c\<lparr>keys := (keys c)[unat key := pressed]\<rparr> else c)"

definition GetDisplay :: "chip8 \<Rightarrow> u8 list" where
  "GetDisplay c = display c"

definition DrawFlag :: "chip8 \<Rightarrow> chip8 \<times> bool" where
  "DrawFlag c = (let flag = drawFlag c in (c\<lparr>drawFlag := False\<rparr>, flag))"

section \<open>Basic facts about the model\<close>

lemma length_fontset: "length fontset = 80"
  by (simp add: fontset_def)

lemma memory_New: "memory New = fontset @ replicate 4016 0"
  by (simp add: New_def zero_chip8_def copy_go_def length_fontset Let_def)

lemma fields_New:
  "V New = replicate 16 0" "I New = 0" "PC New = 0x200" "stack New = replicate 16 0"
  "SP New = 0" "delayTimer New = 0" "soundTimer New = 0" "display New = replicate 2048 0"
  "keys New = replicate 16 False" "drawFlag New = False"
  by (simp_all add: New_def zero_chip8_def Let_def)

lemma wf_New: "wf_chip8 New"
  by (simp add: wf_chip8_def memory_New length_fontset fields_New)

lemma unat_u8_lt: "unat (a :: u8) < 256"
  using unsigned_less [of a] by simp

lemma unat_ucast_up: "unat (ucast (a :: u8) :: u16) = unat a"
  using unat_u8_lt [of a] by (simp add: unsigned_ucast_eq take_bit_nat_eq_self)

lemma unat_ucast_down: "unat (ucast (w :: u16) :: u8) = unat w mod 256"
  by (simp add: unsigned_ucast_eq take_bit_eq_mod)

lemma ucast_lt16: "unat (w :: u16) < 16 \<Longrightarrow> unat (ucast w :: u8) < 16"
  by (simp add: unsigned_ucast_eq take_bit_nat_eq_self)

lemma and_15_take: "(w :: u16) AND 15 = take_bit 4 w"
  by (simp add: take_bit_eq_mask mask_eq_exp_minus_1)

lemma and_15_lt: "unat ((w :: u16) AND 15) < 16"
proof -
  have "unat (take_bit 4 w) = take_bit 4 (unat w)"
    by (rule unsigned_take_bit_eq)
  also have "\<dots> < 2 ^ 4"
    by (rule take_bit_nat_less_exp)
  finally show ?thesis
    by (simp add: and_15_take)
qed

lemma dec_x_lt: "unat (dec_x opcode) < 16"
proof -
  have "drop_bit 8 (opcode AND 0x0F00) = drop_bit 8 opcode AND 15"
    by (simp add: bit_eq_iff bit_simps)
  then show ?thesis
    unfolding dec_x_def by (simp only: ucast_lt16 [OF and_15_lt])
qed

lemma dec_y_lt: "unat (dec_y opcode) < 16"
proof -
  have "drop_bit 4 (opcode AND 0x00F0) = drop_bit 4 opcode AND 15"
    by (simp add: bit_eq_iff bit_simps)
  then show ?thesis
    unfolding dec_y_def by (simp only: ucast_lt16 [OF and_15_lt])
qed

lemma dec_n_lt: "unat (dec_n opcode) < 16"
  unfolding dec_n_def by (rule ucast_lt16 [OF and_15_lt])

section \<open>Loading a ROM\<close>

text \<open>
  Claim C2. \<^verbatim>\<open>LoadROM\<close> returns no error exactly when the ROM has at most 3584 bytes.
  Then the bytes are in memory from address 0x200 on, the rest of memory and every other
  field are as before. A longer ROM gives the size error and the machine is unchanged.
\<close>

theorem LoadROM_size:
  "(snd (LoadROM rom c) = None \<longleftrightarrow> length rom \<le> 3584) \<and>
   (length rom \<le> 3584 \<longrightarrow> length (memory c) = 4096 \<longrightarrow>
      LoadROM rom c =
        (c\<lparr>memory := take 512 (memory c) @ rom @ drop (512 + length rom) (memory c)\<rparr>, None)) \<and>
   (length rom > 3584 \<longrightarrow> LoadROM rom c = (c, Some (RomTooLarge (length rom) 3584)))"
  by (auto simp: LoadROM_def copy_go_def Let_def min_def add.commute)

theorem LoadROM_size_witness:
  "snd (LoadROM (replicate 3584 7) New) = None \<and>
   memory (fst (LoadROM (replicate 3584 7) New)) = take 512 (memory New) @ replicate 3584 7 \<and>
   LoadROM (replicate 3585 7) New = (New, Some (RomTooLarge 3585 3584))"
  using LoadROM_size [of "replicate 3584 7" New] LoadROM_size [of "replicate 3585 7" New]
  by (simp add: memory_New length_fontset)

section \<open>Add with carry\<close>

lemma unat_sum16: "unat ((ucast (a :: u8) :: u16) + ucast (b :: u8)) = unat a + unat b"
  using unat_u8_lt [of a] unat_u8_lt [of b]
  by (simp add: unat_word_ariths unat_ucast_up)

lemma sum16_gt: "((ucast (a :: u8) :: u16) + ucast (b :: u8) > 0xFF) = (unat a + unat b > 255)"
  by (simp add: word_less_nat_alt unat_sum16)

lemma sum16_trunc: "(ucast ((ucast (a :: u8) :: u16) + ucast (b :: u8)) :: u8) = a + b"
proof -
  have "unat (ucast ((ucast a :: u16) + ucast b) :: u8) = (unat a + unat b) mod 256"
    by (simp only: unat_ucast_down unat_sum16)
  also have "\<dots> = unat (a + b)"
    by (simp add: unat_word_ariths)
  finally show ?thesis
    by (simp only: word_unat_eq_iff)
qed

lemma op_8xy4_eq:
  "op_8xy4 x y c =
     c\<lparr>V := (V c)[15 := (if 255 < unat (V c ! unat x) + unat (V c ! unat y) then 1 else 0),
                    unat x := V c ! unat x + V c ! unat y],
       PC := PC c + 2\<rparr>"
  by (simp add: op_8xy4_def Let_def sum16_gt sum16_trunc)

text \<open>
  Claim C6. For an opcode \<^verbatim>\<open>8xy4\<close> and any register contents, with \<open>sum\<close> the sum of
  the two registers as natural numbers: register 15 is written with 1 if \<open>sum\<close> exceeds 255
  and with 0 otherwise, then register \<open>x\<close> is written with \<open>sum\<close> truncated to 8 bits, and
  the program counter advances by 2. Register \<open>x\<close> afterwards reads \<open>sum mod 256\<close>, and
  when \<open>x\<close> is not 15 register 15 reads the carry.
\<close>

theorem add_with_carry:
  assumes "opcode AND 0xF000 = 0x8000" and "opcode AND 0x000F = 0x0004" and "length (V c) = 16"
  shows "let x = unat (dec_x opcode); y = unat (dec_y opcode);
             sum = unat (V c ! x) + unat (V c ! y);
             carry = (if 255 < sum then 1 else 0)
         in \<exists>c'. executeOpcode rnd opcode c = Inr c' \<and>
              c' = c\<lparr>V := (V c)[15 := carry, x := of_nat sum], PC := PC c + 2\<rparr> \<and>
              unat (V c' ! x) = sum mod 256 \<and>
              (x \<noteq> 15 \<longrightarrow> V c' ! 15 = carry)"
  using assms dec_x_lt [of opcode]
  by (simp add: executeOpcode_def exec_8_def Let_def op_8xy4_eq unat_word_ariths)

lemma dec_8124: "dec_x 0x8124 = 1" "dec_y 0x8124 = 2"
  by (simp_all add: dec_x_def dec_y_def)

theorem add_with_carry_witness:
  "executeOpcode 0 0x8124 (New\<lparr>V := (V New)[1 := 250, 2 := 10]\<rparr>) =
     Inr (New\<lparr>V := (V New)[1 := 250, 2 := 10, 15 := 1, 1 := 4], PC := 0x202\<rparr>)"
proof -
  have trunc: "(260 :: u8) = 4" by simp
  show ?thesis
    using add_with_carry [of "0x8124" "New\<lparr>V := (V New)[1 := 250, 2 := 10]\<rparr>" 0]
    by (simp add: dec_8124 fields_New Let_def trunc)
qed

section \<open>Call and return\<close>

lemma op_2nnn_eq:
  "unat (SP c) < length (stack c) \<Longrightarrow>
   op_2nnn nnn c = Inr (c\<lparr>stack := (stack c)[unat (SP c) := PC c], SP := SP c + 1, PC := nnn\<rparr>)"
  by (simp add: op_2nnn_def Let_def)

lemma op_00EE_eq:
  "unat (SP c - 1) < length (stack c) \<Longrightarrow>
   op_00EE c = Inr (c\<lparr>SP := SP c - 1, PC := stack c ! unat (SP c - 1) + 2\<rparr>)"
  by (simp add: op_00EE_def Let_def)

lemma exec_call: "opcode AND 0xF000 = 0x2000 \<Longrightarrow> executeOpcode rnd opcode c = op_2nnn (dec_nnn opcode) c"
  by (simp add: executeOpcode_def Let_def)

lemma exec_ret: "executeOpcode rnd 0x00EE c = op_00EE c"
  by (simp add: executeOpcode_def exec_0_def Let_def)

lemma unat_SP_pred: "0 < unat (s :: u8) \<Longrightarrow> unat (s - 1) = unat s - 1"
  using unat_minus_one [of s] by (auto simp: unat_gt_0)

text \<open>
  Claim C3. With the stack pointer below 16, an opcode \<^verbatim>\<open>2nnn\<close> stores the current
  program counter in the stack slot the stack pointer names, increments the stack pointer and
  sets the program counter to \<open>nnn\<close>. A return \<^verbatim>\<open>00EE\<close> executed in the state after
  the call restores the stack pointer and leaves the program counter at the address of the
  call plus 2. In any state with stack pointer from 1 to 16, \<^verbatim>\<open>00EE\<close> decrements the
  stack pointer and sets the program counter to the popped address plus 2.
\<close>

theorem call_return:
  assumes "opcode AND 0xF000 = 0x2000" and "length (stack c) = 16"
  shows "(unat (SP c) < 16 \<longrightarrow>
           (\<exists>c1. executeOpcode rnd opcode c = Inr c1 \<and>
              c1 = c\<lparr>stack := (stack c)[unat (SP c) := PC c], SP := SP c + 1,
                     PC := dec_nnn opcode\<rparr> \<and>
              executeOpcode rnd' 0x00EE c1 = Inr (c1\<lparr>SP := SP c, PC := PC c + 2\<rparr>))) \<and>
         (0 < unat (SP c) \<and> unat (SP c) \<le> 16 \<longrightarrow>
            executeOpcode rnd 0x00EE c =
              Inr (c\<lparr>SP := SP c - 1, PC := stack c ! (unat (SP c) - 1) + 2\<rparr>))"
proof (intro conjI impI)
  assume sp: "unat (SP c) < 16"
  let ?c1 = "c\<lparr>stack := (stack c)[unat (SP c) := PC c], SP := SP c + 1, PC := dec_nnn opcode\<rparr>"
  have call: "executeOpcode rnd opcode c = Inr ?c1"
    using assms sp by (simp add: exec_call op_2nnn_eq)
  have "unat (SP ?c1 - 1) < length (stack ?c1)"
    using assms sp by simp
  then have "op_00EE ?c1 = Inr (?c1\<lparr>SP := SP ?c1 - 1, PC := stack ?c1 ! unat (SP ?c1 - 1) + 2\<rparr>)"
    by (rule op_00EE_eq)
  then have ret: "executeOpcode rnd' 0x00EE ?c1 = Inr (?c1\<lparr>SP := SP c, PC := PC c + 2\<rparr>)"
    using assms sp by (simp add: exec_ret)
  show "\<exists>c1. executeOpcode rnd opcode c = Inr c1 \<and>
              c1 = c\<lparr>stack := (stack c)[unat (SP c) := PC c], SP := SP c + 1,
                     PC := dec_nnn opcode\<rparr> \<and>
              executeOpcode rnd' 0x00EE c1 = Inr (c1\<lparr>SP := SP c, PC := PC c + 2\<rparr>)"
    using call ret by simp
next
  assume sp: "0 < unat (SP c) \<and> unat (SP c) \<le> 16"
  then have "unat (SP c - 1) = unat (SP c) - 1"
    by (simp add: unat_SP_pred)
  then show "executeOpcode rnd 0x00EE c =
              Inr (c\<lparr>SP := SP c - 1, PC := stack c ! (unat (SP c) - 1) + 2\<rparr>)"
    using assms sp op_00EE_eq [of c] by (auto simp: exec_ret)
qed

theorem call_return_witness:
  "executeOpcode 0 0x2400 New =
     Inr (New\<lparr>stack := (stack New)[0 := 0x200], SP := 1, PC := 0x400\<rparr>) \<and>
   executeOpcode 0 0x00EE (New\<lparr>stack := (stack New)[0 := 0x200], SP := 1, PC := 0x400\<rparr>) =
     Inr (New\<lparr>stack := (stack New)[0 := 0x200], SP := 0, PC := 0x202\<rparr>)"
  using call_return [of "0x2400" New 0 0]
  by (simp add: fields_New dec_nnn_def)

section \<open>Flag arithmetic with destination register 15\<close>

lemma exec_8_sub:
  "opcode AND 0xF000 = 0x8000 \<Longrightarrow>
   executeOpcode rnd opcode c = Inr (exec_8 opcode (dec_x opcode) (dec_y opcode) c)"
  by (simp add: executeOpcode_def Let_def)

text \<open>\<^verbatim>\<open>8xy4\<close> takes the sum before it writes the flag: with destination 15 the last
  store leaves the truncated sum of the two operands in register 15.\<close>

lemma add_x_is_F:
  assumes "opcode AND 0xF000 = 0x8000" and "opcode AND 0x000F = 0x0004"
    and "dec_x opcode = 15" and "length (V c) = 16"
  shows "executeOpcode rnd opcode c =
           Inr (c\<lparr>V := (V c)[15 := V c ! 15 + V c ! unat (dec_y opcode)], PC := PC c + 2\<rparr>)"
  using assms by (simp add: exec_8_sub exec_8_def Let_def op_8xy4_eq)

lemma dec_8F05: "dec_x 0x8F05 = 15" "dec_y 0x8F05 = 0"
  by (simp_all add: dec_x_def dec_y_def)

lemma dec_8F07: "dec_x 0x8F07 = 15" "dec_y 0x8F07 = 0"
  by (simp_all add: dec_x_def dec_y_def)

text \<open>
  Claim C10. With destination index 15 the last store of the operation is to leave the
  truncated arithmetic result in register 15. \<^verbatim>\<open>8xy5\<close> and \<^verbatim>\<open>8xy7\<close> write the flag
  to register 15 before they read it as an operand. For \<^verbatim>\<open>8F05\<close> with register 15
  holding 7 and register 0 holding 3 the code leaves 253 in register 15, while the
  difference of the operands is 4. For \<^verbatim>\<open>8F07\<close> with register 0 holding 7 and
  register 15 holding 3 the code leaves 6, while the difference of the operands is 4.
\<close>

theorem subtract_x_is_F_failing_input:
  "executeOpcode 0 0x8F05 (New\<lparr>V := (V New)[0 := 3, 15 := 7]\<rparr>) =
     Inr (New\<lparr>V := (V New)[0 := 3, 15 := 253], PC := 0x202\<rparr>) \<and>
   V (New\<lparr>V := (V New)[0 := 3, 15 := 7]\<rparr>) ! 15 - V (New\<lparr>V := (V New)[0 := 3, 15 := 7]\<rparr>) ! 0 = 4 \<and>
   executeOpcode 0 0x8F07 (New\<lparr>V := (V New)[0 := 7, 15 := 3]\<rparr>) =
     Inr (New\<lparr>V := (V New)[0 := 7, 15 := 6], PC := 0x202\<rparr>) \<and>
   V (New\<lparr>V := (V New)[0 := 7, 15 := 3]\<rparr>) ! 0 - V (New\<lparr>V := (V New)[0 := 7, 15 := 3]\<rparr>) ! 15 = 4"
proof -
  have neg: "- (3 :: u8) = 253" by simp
  have sub: "executeOpcode 0 0x8F05 (New\<lparr>V := (V New)[0 := 3, 15 := 7]\<rparr>) =
     Inr (New\<lparr>V := (V New)[0 := 3, 15 := 253], PC := 0x202\<rparr>)"
    by (simp add: executeOpcode_def exec_8_def Let_def dec_8F05 op_8xy5_def fields_New neg)
  have subn: "executeOpcode 0 0x8F07 (New\<lparr>V := (V New)[0 := 7, 15 := 3]\<rparr>) =
     Inr (New\<lparr>V := (V New)[0 := 7, 15 := 6], PC := 0x202\<rparr>)"
    by (simp add: executeOpcode_def exec_8_def Let_def dec_8F07 op_8xy7_def fields_New)
  show ?thesis
    using sub subn by (simp add: fields_New)
qed

section \<open>Skipping on a key\<close>

lemma exec_E_sub:
  "opcode AND 0xF000 = 0xE000 \<Longrightarrow> executeOpcode rnd opcode c = exec_E opcode (dec_x opcode) c"
  by (simp add: executeOpcode_def Let_def)

text \<open>
  Claim C9. \<^verbatim>\<open>Ex9E\<close> and \<^verbatim>\<open>ExA1\<close> index the 16 keys with the whole byte of register
  \<open>x\<close>. The step panics with an index out of range exactly when that byte is 16 or more;
  when it is at most 15 the key is read and the program counter advances by 4 or 2.
\<close>

theorem key_skip_index_unchecked:
  assumes "opcode AND 0xF000 = 0xE000"
    and "opcode AND 0x00FF = 0x009E \<or> opcode AND 0x00FF = 0x00A1"
    and "length (keys c) = 16"
  shows "let k = unat (V c ! unat (dec_x opcode)) in
     (executeOpcode rnd opcode c = Inl IndexOutOfRange \<longleftrightarrow> 16 \<le> k) \<and>
     (k \<le> 15 \<longrightarrow>
        executeOpcode rnd opcode c =
          Inr (c\<lparr>PC := PC c + (if keys c ! k = (opcode AND 0x00FF = 0x009E) then 4 else 2)\<rparr>))"
  using assms
  by (auto simp: exec_E_sub exec_E_def op_Ex9E_def op_ExA1_def Let_def)

lemma dec_E09E: "dec_x 0xE09E = 0"
  by (simp add: dec_x_def)

theorem key_skip_index_unchecked_witness:
  "executeOpcode 0 0xE09E (New\<lparr>V := (V New)[0 := 16]\<rparr>) = Inl IndexOutOfRange \<and>
   executeOpcode 0 0xE09E (New\<lparr>V := (V New)[0 := 15]\<rparr>) =
     Inr (New\<lparr>V := (V New)[0 := 15], PC := 0x202\<rparr>)"
  using key_skip_index_unchecked [of "0xE09E" "New\<lparr>V := (V New)[0 := 16]\<rparr>" 0]
    key_skip_index_unchecked [of "0xE09E" "New\<lparr>V := (V New)[0 := 15]\<rparr>" 0]
  by (simp add: dec_E09E fields_New Let_def)

section \<open>What an operation leaves unchanged\<close>

lemmas op_plain_defs =
  op_unknown_def op_00E0_def op_1nnn_def op_3xkk_def op_4xkk_def op_5xy0_def op_6xkk_def
  op_7xkk_def op_8xy0_def op_8xy1_def op_8xy2_def op_8xy3_def op_8xy4_def op_8xy5_def
  op_8xy6_def op_8xy7_def op_8xyE_def op_9xy0_def op_Annn_def op_Bnnn_def op_Cxkk_def
  op_Fx07_def op_Fx0A_def op_Fx1E_def op_Fx29_def

lemma drawPixel_frame:
  "memory (drawPixel sd xp yp row col c) = memory c"
  "I (drawPixel sd xp yp row col c) = I c"
  "PC (drawPixel sd xp yp row col c) = PC c"
  "delayTimer (drawPixel sd xp yp row col c) = delayTimer c"
  "soundTimer (drawPixel sd xp yp row col c) = soundTimer c"
  by (simp_all add: drawPixel_def Let_def)

lemma drawCols_frame:
  "memory (drawCols sd xp yp row cols c) = memory c \<and>
   I (drawCols sd xp yp row cols c) = I c \<and>
   PC (drawCols sd xp yp row cols c) = PC c \<and>
   delayTimer (drawCols sd xp yp row cols c) = delayTimer c \<and>
   soundTimer (drawCols sd xp yp row cols c) = soundTimer c"
  by (induction cols arbitrary: c) (simp_all add: drawPixel_frame)

lemma drawRows_frame:
  "drawRows xp yp rows c = Inr c' \<Longrightarrow>
   memory c' = memory c \<and> I c' = I c \<and> PC c' = PC c \<and>
   delayTimer c' = delayTimer c \<and> soundTimer c' = soundTimer c"
proof (induction rows arbitrary: c)
  case Nil
  then show ?case by simp
next
  case (Cons row rows)
  let ?a = "unat (I c + of_nat row)"
  from Cons.prems have inb: "?a < length (memory c)"
    by (simp add: Let_def split: if_splits)
  with Cons.prems
  have "drawRows xp yp rows (drawCols (memory c ! ?a) xp yp (of_nat row) [0..<8] c) = Inr c'"
    by (simp add: Let_def)
  from Cons.IH [OF this] show ?case
    by (simp only: drawCols_frame)
qed

lemma drawSprite_frame:
  assumes "drawSprite x y h c = Inr c'"
  shows "memory c' = memory c \<and> I c' = I c \<and> PC c' = PC c \<and>
         delayTimer c' = delayTimer c \<and> soundTimer c' = soundTimer c"
proof -
  let ?c0 = "c\<lparr>V := (V c)[15 := 0]\<rparr>"
  from assms obtain c1 where
    rows: "drawRows (V ?c0 ! unat x mod 64) (V ?c0 ! unat y mod 32) [0..<unat h] ?c0 = Inr c1"
    and c': "c' = c1\<lparr>drawFlag := True\<rparr>"
    by (auto simp: drawSprite_def Let_def split: sum.splits)
  from drawRows_frame [OF rows] c' show ?thesis by simp
qed

lemma op_Dxyn_frame:
  assumes "op_Dxyn x y n c = Inr c'"
  shows "memory c' = memory c \<and> delayTimer c' = delayTimer c \<and> soundTimer c' = soundTimer c"
proof -
  from assms obtain c1 where d: "drawSprite x y n c = Inr c1" and c': "c' = c1\<lparr>PC := PC c1 + 2\<rparr>"
    by (auto simp: op_Dxyn_def split: sum.splits)
  from drawSprite_frame [OF d] c' show ?thesis by simp
qed

lemma loadRegs_frame:
  "loadRegs is c = Inr c' \<Longrightarrow>
   memory c' = memory c \<and> delayTimer c' = delayTimer c \<and> soundTimer c' = soundTimer c"
  by (induction "is" arbitrary: c) (auto simp: Let_def split: if_splits)

lemma storeRegs_timers:
  "storeRegs is c = Inr c' \<Longrightarrow>
   delayTimer c' = delayTimer c \<and> soundTimer c' = soundTimer c"
  by (induction "is" arbitrary: c) (auto simp: Let_def split: if_splits)

lemma exec_8_frame:
  "memory (exec_8 opcode x y c) = memory c"
  "delayTimer (exec_8 opcode x y c) = delayTimer c"
  "soundTimer (exec_8 opcode x y c) = soundTimer c"
  by (simp_all add: exec_8_def op_plain_defs Let_def)

lemma exec_0_frame:
  "exec_0 opcode c = Inr c' \<Longrightarrow>
   memory c' = memory c \<and> delayTimer c' = delayTimer c \<and> soundTimer c' = soundTimer c"
  by (auto simp: exec_0_def op_plain_defs op_00EE_def Let_def split: if_splits)

lemma exec_E_frame:
  "exec_E opcode x c = Inr c' \<Longrightarrow>
   memory c' = memory c \<and> delayTimer c' = delayTimer c \<and> soundTimer c' = soundTimer c"
  by (auto simp: exec_E_def op_plain_defs op_Ex9E_def op_ExA1_def Let_def split: if_splits)

lemma exec_F_timers:
  assumes "exec_F opcode x c = Inr c'"
  shows "(opcode AND 0x00FF \<noteq> 0x0015 \<longrightarrow> delayTimer c' = delayTimer c) \<and>
         (opcode AND 0x00FF \<noteq> 0x0018 \<longrightarrow> soundTimer c' = soundTimer c)"
  using assms
  by (auto simp: exec_F_def op_plain_defs op_Fx15_def op_Fx18_def op_Fx33_def op_Fx55_def
      op_Fx65_def Let_def
      split: if_splits sum.splits option.splits dest: loadRegs_frame storeRegs_timers)


lemma executeOpcode_timers:
  assumes "executeOpcode rnd opcode c = Inr c'"
  shows "(\<not> is_Fx15 opcode \<longrightarrow> delayTimer c' = delayTimer c) \<and>
         (\<not> is_Fx18 opcode \<longrightarrow> soundTimer c' = soundTimer c)"
proof (cases "opcode AND 0xF000 = 0xF000")
  case True
  with assms have "exec_F opcode (dec_x opcode) c = Inr c'"
    by (simp add: executeOpcode_def Let_def)
  from exec_F_timers [OF this] True show ?thesis
    by (simp add: is_Fx15_def is_Fx18_def)
next
  case False
  with assms have "delayTimer c' = delayTimer c \<and> soundTimer c' = soundTimer c"
    by (auto simp: executeOpcode_def Let_def op_plain_defs op_2nnn_def exec_8_frame
        split: if_splits dest: exec_0_frame exec_E_frame op_Dxyn_frame)
  then show ?thesis by simp
qed

lemma updateTimers_eq:
  "updateTimers c = c\<lparr>delayTimer := (if delayTimer c = 0 then 0 else delayTimer c - 1),
                       soundTimer := (if soundTimer c = 0 then 0 else soundTimer c - 1)\<rparr>"
  by (simp add: updateTimers_def Let_def word_greater_zero_iff)

lemma EmulateCycle_Inr:
  "EmulateCycle rnd c = Inr c' \<Longrightarrow>
   \<exists>opcode c1. fetchOpcode c = Inr opcode \<and> executeOpcode rnd opcode c = Inr c1 \<and>
      c' = updateTimers c1"
  by (auto simp: EmulateCycle_def split: sum.splits)

lemma step_delay:
  assumes "EmulateCycle rnd c = Inr c'" and "\<not> fetches_Fx15 c"
  shows "unat (delayTimer c') = unat (delayTimer c) - 1"
proof -
  from EmulateCycle_Inr [OF assms(1)] obtain opcode c1 where
    f: "fetchOpcode c = Inr opcode" and e: "executeOpcode rnd opcode c = Inr c1"
    and c': "c' = updateTimers c1" by blast
  from assms(2) f have "\<not> is_Fx15 opcode" by (simp add: fetches_Fx15_def)
  with executeOpcode_timers [OF e] have "delayTimer c1 = delayTimer c" by simp
  then show ?thesis
    by (simp add: c' updateTimers_eq unat_minus_one)
qed

lemma one_step_timers:
  assumes step: "EmulateCycle rnd c = Inr c'"
  shows "\<exists>opcode c1. fetchOpcode c = Inr opcode \<and> executeOpcode rnd opcode c = Inr c1 \<and>
         c' = c1\<lparr>delayTimer := (if delayTimer c1 = 0 then 0 else delayTimer c1 - 1),
                  soundTimer := (if soundTimer c1 = 0 then 0 else soundTimer c1 - 1)\<rparr> \<and>
         unat (delayTimer c') = unat (delayTimer c1) - 1 \<and>
         unat (soundTimer c') = unat (soundTimer c1) - 1 \<and>
         (\<not> is_Fx15 opcode \<longrightarrow> delayTimer c1 = delayTimer c) \<and>
         (\<not> is_Fx18 opcode \<longrightarrow> soundTimer c1 = soundTimer c)"
proof -
  from EmulateCycle_Inr [OF step] obtain opcode c1 where
    f: "fetchOpcode c = Inr opcode" and e: "executeOpcode rnd opcode c = Inr c1"
    and c': "c' = updateTimers c1" by blast
  have "unat (delayTimer c') = unat (delayTimer c1) - 1"
    and "unat (soundTimer c') = unat (soundTimer c1) - 1"
    by (simp_all add: c' updateTimers_eq unat_minus_one)
  with f e c' executeOpcode_timers [OF e] show ?thesis
    by (auto simp: updateTimers_eq)
qed

lemma three_steps_delay:
  assumes "delayTimer c = 2"
    and "\<not> fetches_Fx15 c" and "EmulateCycle rnd c = Inr s1"
    and "\<not> fetches_Fx15 s1" and "EmulateCycle rnd2 s1 = Inr s2"
    and "\<not> fetches_Fx15 s2" and "EmulateCycle rnd3 s2 = Inr s3"
  shows "delayTimer s1 = 1 \<and> delayTimer s2 = 0 \<and> delayTimer s3 = 0"
proof -
  have u1: "unat (delayTimer s1) = 1"
    using step_delay [of rnd c s1] assms by simp
  then have u2: "unat (delayTimer s2) = 0"
    using step_delay [of rnd2 s1 s2] assms by simp
  then have u3: "unat (delayTimer s3) = 0"
    using step_delay [of rnd3 s2 s3] assms by simp
  from u1 u2 u3 show ?thesis
    by (simp add: word_unat_eq_iff)
qed

text \<open>
  Claim C8. A step that returns has fetched an opcode and executed it, and then each of the
  two timers is one less than the operation left it if that was not 0, and 0 if it was 0;
  read as numbers, the new value is the old one minus 1 with the subtraction stopping at 0.
  The operation itself leaves the delay timer alone unless it is \<^verbatim>\<open>Fx15\<close>, and the sound
  timer unless it is \<^verbatim>\<open>Fx18\<close>. So from a delay timer of 2, three returning steps none
  of which fetches \<^verbatim>\<open>Fx15\<close> give 1, 0, 0.
\<close>

theorem timers_tick:
  "(EmulateCycle rnd c = Inr c' \<longrightarrow>
      (\<exists>opcode c1. fetchOpcode c = Inr opcode \<and> executeOpcode rnd opcode c = Inr c1 \<and>
         c' = c1\<lparr>delayTimer := (if delayTimer c1 = 0 then 0 else delayTimer c1 - 1),
                  soundTimer := (if soundTimer c1 = 0 then 0 else soundTimer c1 - 1)\<rparr> \<and>
         unat (delayTimer c') = unat (delayTimer c1) - 1 \<and>
         unat (soundTimer c') = unat (soundTimer c1) - 1 \<and>
         (\<not> is_Fx15 opcode \<longrightarrow> delayTimer c1 = delayTimer c) \<and>
         (\<not> is_Fx18 opcode \<longrightarrow> soundTimer c1 = soundTimer c))) \<and>
   (delayTimer c = 2 \<and>
    \<not> fetches_Fx15 c \<and> EmulateCycle rnd c = Inr s1 \<and>
    \<not> fetches_Fx15 s1 \<and> EmulateCycle rnd2 s1 = Inr s2 \<and>
    \<not> fetches_Fx15 s2 \<and> EmulateCycle rnd3 s2 = Inr s3 \<longrightarrow>
      delayTimer s1 = 1 \<and> delayTimer s2 = 0 \<and> delayTimer s3 = 0)"
proof (rule conjI)
  show "EmulateCycle rnd c = Inr c' \<longrightarrow>
      (\<exists>opcode c1. fetchOpcode c = Inr opcode \<and> executeOpcode rnd opcode c = Inr c1 \<and>
         c' = c1\<lparr>delayTimer := (if delayTimer c1 = 0 then 0 else delayTimer c1 - 1),
                  soundTimer := (if soundTimer c1 = 0 then 0 else soundTimer c1 - 1)\<rparr> \<and>
         unat (delayTimer c') = unat (delayTimer c1) - 1 \<and>
         unat (soundTimer c') = unat (soundTimer c1) - 1 \<and>
         (\<not> is_Fx15 opcode \<longrightarrow> delayTimer c1 = delayTimer c) \<and>
         (\<not> is_Fx18 opcode \<longrightarrow> soundTimer c1 = soundTimer c))"
    by (rule impI) (rule one_step_timers)
  show "delayTimer c = 2 \<and>
    \<not> fetches_Fx15 c \<and> EmulateCycle rnd c = Inr s1 \<and>
    \<not> fetches_Fx15 s1 \<and> EmulateCycle rnd2 s1 = Inr s2 \<and>
    \<not> fetches_Fx15 s2 \<and> EmulateCycle rnd3 s2 = Inr s3 \<longrightarrow>
      delayTimer s1 = 1 \<and> delayTimer s2 = 0 \<and> delayTimer s3 = 0"
    using three_steps_delay [of c rnd s1 rnd2 s2 rnd3 s3] by blast
qed

lemma fetch_New_like:
  "memory c = memory New \<Longrightarrow> PC c \<in> {0x200, 0x202, 0x204} \<Longrightarrow> fetchOpcode c = Inr 0"
  by (auto simp: fetchOpcode_def memory_New length_fontset nth_append)

lemma exec_zero: "executeOpcode rnd 0 c = Inr (c\<lparr>PC := PC c + 2\<rparr>)"
  by (simp add: executeOpcode_def exec_0_def op_unknown_def Let_def)

lemma step_New_like:
  "memory c = memory New \<Longrightarrow> PC c \<in> {0x200, 0x202, 0x204} \<Longrightarrow>
   EmulateCycle rnd c = Inr (updateTimers (c\<lparr>PC := PC c + 2\<rparr>)) \<and> \<not> fetches_Fx15 c"
  by (simp add: EmulateCycle_def fetch_New_like exec_zero fetches_Fx15_def is_Fx15_def)

theorem timers_tick_witness:
  "EmulateCycle 0 (New\<lparr>delayTimer := 2\<rparr>) = Inr (New\<lparr>PC := 0x202, delayTimer := 1\<rparr>) \<and>
   EmulateCycle 0 (New\<lparr>PC := 0x202, delayTimer := 1\<rparr>) = Inr (New\<lparr>PC := 0x204, delayTimer := 0\<rparr>) \<and>
   EmulateCycle 0 (New\<lparr>PC := 0x204, delayTimer := 0\<rparr>) = Inr (New\<lparr>PC := 0x206, delayTimer := 0\<rparr>) \<and>
   delayTimer (New\<lparr>PC := 0x202, delayTimer := 1\<rparr>) = 1 \<and>
   delayTimer (New\<lparr>PC := 0x204, delayTimer := 0\<rparr>) = 0 \<and>
   delayTimer (New\<lparr>PC := 0x206, delayTimer := 0\<rparr>) = 0"
proof -
  have s1: "EmulateCycle 0 (New\<lparr>delayTimer := 2\<rparr>) = Inr (New\<lparr>PC := 0x202, delayTimer := 1\<rparr>)"
    and n1: "\<not> fetches_Fx15 (New\<lparr>delayTimer := 2\<rparr>)"
    using step_New_like [of "New\<lparr>delayTimer := 2\<rparr>" 0]
    by (simp_all add: fields_New updateTimers_eq)
  have s2: "EmulateCycle 0 (New\<lparr>PC := 0x202, delayTimer := 1\<rparr>) = Inr (New\<lparr>PC := 0x204, delayTimer := 0\<rparr>)"
    and n2: "\<not> fetches_Fx15 (New\<lparr>PC := 0x202, delayTimer := 1\<rparr>)"
    using step_New_like [of "New\<lparr>PC := 0x202, delayTimer := 1\<rparr>" 0]
    by (simp_all add: fields_New updateTimers_eq)
  have s3: "EmulateCycle 0 (New\<lparr>PC := 0x204, delayTimer := 0\<rparr>) = Inr (New\<lparr>PC := 0x206, delayTimer := 0\<rparr>)"
    and n3: "\<not> fetches_Fx15 (New\<lparr>PC := 0x204, delayTimer := 0\<rparr>)"
    using step_New_like [of "New\<lparr>PC := 0x204, delayTimer := 0\<rparr>" 0]
    by (simp_all add: fields_New updateTimers_eq)
  show ?thesis
    using timers_tick [of 0 "New\<lparr>delayTimer := 2\<rparr>" "New\<lparr>PC := 0x202, delayTimer := 1\<rparr>"
        "New\<lparr>PC := 0x202, delayTimer := 1\<rparr>" 0 "New\<lparr>PC := 0x204, delayTimer := 0\<rparr>"
        0 "New\<lparr>PC := 0x206, delayTimer := 0\<rparr>"] s1 n1 s2 n2 s3 n3
    by simp
qed

section \<open>Waiting for a key\<close>

lemma scanKeys_None: "scanKeys ks xs = None \<longleftrightarrow> (\<forall>i\<in>set xs. \<not> ks ! i)"
  by (induction xs) auto

lemma scanKeys_Some_upt:
  "scanKeys ks [m..<n] = Some k \<Longrightarrow>
   m \<le> k \<and> k < n \<and> ks ! k \<and> (\<forall>j. m \<le> j \<and> j < k \<longrightarrow> \<not> ks ! j)"
proof (induction "n - m" arbitrary: m)
  case 0
  then show ?case by simp
next
  case (Suc d)
  then have mn: "m < n" by simp
  then have upt: "[m..<n] = m # [Suc m..<n]" by (rule upt_conv_Cons)
  show ?case
  proof (cases "ks ! m")
    case True
    with Suc.prems upt mn show ?thesis by auto
  next
    case False
    with Suc.prems upt have "scanKeys ks [Suc m..<n] = Some k" by simp
    moreover from Suc.hyps(2) have "d = n - Suc m" by simp
    ultimately have "Suc m \<le> k \<and> k < n \<and> ks ! k \<and> (\<forall>j. Suc m \<le> j \<and> j < k \<longrightarrow> \<not> ks ! j)"
      by (rule Suc.hyps(1) [rotated])
    with False show ?thesis
      by (auto simp: Suc_le_eq elim: le_neq_implies_less [rotated] dest: le_neq_implies_less)
  qed
qed


lemma exec_F_sub:
  "opcode AND 0xF000 = 0xF000 \<Longrightarrow> executeOpcode rnd opcode c = exec_F opcode (dec_x opcode) c"
  by (simp add: executeOpcode_def Let_def)

lemma updateTimers_keeps:
  "PC (updateTimers c) = PC c" "memory (updateTimers c) = memory c" "V (updateTimers c) = V c"
  by (simp_all add: updateTimers_eq)

lemma fetchOpcode_cong:
  "memory c' = memory c \<Longrightarrow> PC c' = PC c \<Longrightarrow> fetchOpcode c' = fetchOpcode c"
  by (simp add: fetchOpcode_def)

lemma scan_none:
  "(\<forall>k<n. \<not> ks ! k) \<Longrightarrow> scanKeys ks [0..<n] = None"
  by (simp add: scanKeys_None)

lemma scan_some:
  assumes "k < n" and "ks ! k"
  shows "\<exists>i. scanKeys ks [0..<n] = Some i \<and> i < n \<and> ks ! i \<and> (\<forall>j<i. \<not> ks ! j)"
proof -
  have "scanKeys ks [0..<n] \<noteq> None"
    using assms by (auto simp: scanKeys_None)
  then obtain i where sk: "scanKeys ks [0..<n] = Some i" by blast
  from scanKeys_Some_upt [OF sk] have "i < n \<and> ks ! i \<and> (\<forall>j<i. \<not> ks ! j)"
    by blast
  with sk show ?thesis by blast
qed

lemma op_Fx0A_none:
  assumes "\<forall>k<16. \<not> keys c ! k"
  shows "op_Fx0A x c = c"
proof -
  from assms have "scanKeys (keys c) [0..<16] = None"
    by (rule scan_none)
  then show ?thesis
    by (simp only: op_Fx0A_def option.case)
qed

lemma op_Fx0A_some:
  assumes "k < 16" and "keys c ! k"
  shows "\<exists>i. i < 16 \<and> keys c ! i \<and> (\<forall>j<i. \<not> keys c ! j) \<and>
           op_Fx0A x c = c\<lparr>V := (V c)[unat x := of_nat i], PC := PC c + 2\<rparr>"
proof -
  from scan_some [OF assms] obtain i where sk: "scanKeys (keys c) [0..<16] = Some i"
    and i: "i < 16 \<and> keys c ! i \<and> (\<forall>j<i. \<not> keys c ! j)" by blast
  have "(let c = c\<lparr>V := (V c)[unat x := of_nat i]\<rparr> in c\<lparr>PC := PC c + 2\<rparr>)
        = c\<lparr>V := (V c)[unat x := of_nat i], PC := PC c + 2\<rparr>"
    by (simp add: Let_def)
  with sk have "op_Fx0A x c = c\<lparr>V := (V c)[unat x := of_nat i], PC := PC c + 2\<rparr>"
    by (simp only: op_Fx0A_def option.case)
  with i show ?thesis by blast
qed

text \<open>
  Claim C7. Let the step fetch an opcode \<^verbatim>\<open>Fx0A\<close>. If none of the 16 keys is pressed,
  the step returns with the program counter and the registers as they were (only the timers
  tick), and the next fetch yields the same opcode again. If some key is pressed, the step
  returns with register \<open>x\<close> holding the least pressed key index and the program counter
  advanced by 2.
\<close>

theorem key_wait:
  assumes "fetchOpcode c = Inr opcode"
    and "opcode AND 0xF000 = 0xF000" and "opcode AND 0x00FF = 0x000A"
  shows "((\<forall>k<16. \<not> keys c ! k) \<longrightarrow>
            (\<exists>c'. EmulateCycle rnd c = Inr c' \<and> c' = updateTimers c \<and> PC c' = PC c \<and>
                  V c' = V c \<and> fetchOpcode c' = Inr opcode)) \<and>
         ((\<exists>k<16. keys c ! k) \<longrightarrow>
            (\<exists>k c'. k < 16 \<and> keys c ! k \<and> (\<forall>j<k. \<not> keys c ! j) \<and>
               EmulateCycle rnd c = Inr c' \<and>
               c' = updateTimers (c\<lparr>V := (V c)[unat (dec_x opcode) := of_nat k],
                                      PC := PC c + 2\<rparr>) \<and>
               V c' = (V c)[unat (dec_x opcode) := of_nat k] \<and> PC c' = PC c + 2))"
proof (rule conjI)
  have ex: "executeOpcode rnd opcode c = Inr (op_Fx0A (dec_x opcode) c)"
    using assms by (simp add: exec_F_sub exec_F_def Let_def)
  have step: "EmulateCycle rnd c = Inr (updateTimers (op_Fx0A (dec_x opcode) c))"
    using ex assms(1) by (simp add: EmulateCycle_def)
  show "(\<forall>k<16. \<not> keys c ! k) \<longrightarrow>
            (\<exists>c'. EmulateCycle rnd c = Inr c' \<and> c' = updateTimers c \<and> PC c' = PC c \<and>
                  V c' = V c \<and> fetchOpcode c' = Inr opcode)"
  proof (rule impI)
    assume "\<forall>k<16. \<not> keys c ! k"
    then have same: "op_Fx0A (dec_x opcode) c = c"
      by (rule op_Fx0A_none)
    have "fetchOpcode (updateTimers c) = Inr opcode"
      using assms(1) fetchOpcode_cong [of "updateTimers c" c] by (simp add: updateTimers_keeps)
    with step same
    show "\<exists>c'. EmulateCycle rnd c = Inr c' \<and> c' = updateTimers c \<and> PC c' = PC c \<and>
                  V c' = V c \<and> fetchOpcode c' = Inr opcode"
      by (simp add: updateTimers_keeps)
  qed
  show "(\<exists>k<16. keys c ! k) \<longrightarrow>
            (\<exists>k c'. k < 16 \<and> keys c ! k \<and> (\<forall>j<k. \<not> keys c ! j) \<and>
               EmulateCycle rnd c = Inr c' \<and>
               c' = updateTimers (c\<lparr>V := (V c)[unat (dec_x opcode) := of_nat k],
                                      PC := PC c + 2\<rparr>) \<and>
               V c' = (V c)[unat (dec_x opcode) := of_nat k] \<and> PC c' = PC c + 2)"
  proof (rule impI)
    assume "\<exists>k<16. keys c ! k"
    then obtain k0 where "k0 < 16" and "keys c ! k0" by blast
    from op_Fx0A_some [OF this, of "dec_x opcode"] obtain k where
      k: "k < 16 \<and> keys c ! k \<and> (\<forall>j<k. \<not> keys c ! j)"
      and op: "op_Fx0A (dec_x opcode) c =
                 c\<lparr>V := (V c)[unat (dec_x opcode) := of_nat k], PC := PC c + 2\<rparr>"
      by blast
    let ?c' = "updateTimers (c\<lparr>V := (V c)[unat (dec_x opcode) := of_nat k], PC := PC c + 2\<rparr>)"
    have "EmulateCycle rnd c = Inr ?c'"
      using step by (simp only: op)
    moreover have "V ?c' = (V c)[unat (dec_x opcode) := of_nat k]" and "PC ?c' = PC c + 2"
      by (simp_all add: updateTimers_keeps)
    ultimately
    show "\<exists>k c'. k < 16 \<and> keys c ! k \<and> (\<forall>j<k. \<not> keys c ! j) \<and>
               EmulateCycle rnd c = Inr c' \<and>
               c' = updateTimers (c\<lparr>V := (V c)[unat (dec_x opcode) := of_nat k],
                                      PC := PC c + 2\<rparr>) \<and>
               V c' = (V c)[unat (dec_x opcode) := of_nat k] \<and> PC c' = PC c + 2"
      using k by blast
  qed
qed


lemma memory_LoadROM_New:
  "length rom \<le> 3584 \<Longrightarrow>
   memory (fst (LoadROM rom New)) = fontset @ replicate 432 0 @ rom @ replicate (3584 - length rom) 0"
  by (simp add: LoadROM_def copy_go_def memory_New length_fontset min_def Let_def)

lemma fetch_loaded:
  "fetchOpcode (fst (LoadROM [hi, lo] New)) = Inr (push_bit 8 (ucast hi) OR ucast lo)"
proof -
  let ?c = "fst (LoadROM [hi, lo] New)"
  have m: "memory ?c = fontset @ replicate 432 0 @ [hi, lo] @ replicate 3582 0"
    using memory_LoadROM_New [of "[hi, lo]"] by simp
  have pc: "PC ?c = 0x200"
    by (simp add: LoadROM_def fields_New)
  show ?thesis
    by (simp add: fetchOpcode_def m pc length_fontset nth_append)
qed

lemma key_wait_program: "fetchOpcode (fst (LoadROM [0xF3, 0x0A] New)) = Inr 0xF30A"
  by (simp add: fetch_loaded)

theorem key_wait_witness:
  "\<not> isl (EmulateCycle 0 (fst (LoadROM [0xF3, 0x0A] New))) \<and>
   PC (projr (EmulateCycle 0 (fst (LoadROM [0xF3, 0x0A] New)))) = 0x200 \<and>
   \<not> isl (EmulateCycle 0 (SetKey 5 True (fst (LoadROM [0xF3, 0x0A] New)))) \<and>
   PC (projr (EmulateCycle 0 (SetKey 5 True (fst (LoadROM [0xF3, 0x0A] New))))) = 0x202 \<and>
   V (projr (EmulateCycle 0 (SetKey 5 True (fst (LoadROM [0xF3, 0x0A] New))))) ! 3 = 5"
proof -
  let ?c = "fst (LoadROM [0xF3, 0x0A] New)"
  have f1: "fetchOpcode ?c = Inr 0xF30A"
    by (rule key_wait_program)
  have f2: "fetchOpcode (SetKey 5 True ?c) = Inr 0xF30A"
    using fetchOpcode_cong [of "SetKey 5 True ?c" ?c]
    by (simp add: key_wait_program SetKey_def)
  have k1: "keys ?c = replicate 16 False" and v: "V ?c = replicate 16 0" and pc: "PC ?c = 0x200"
    by (simp_all add: LoadROM_def fields_New)
  have k2: "keys (SetKey 5 True ?c) = (replicate 16 False)[5 := True]"
    and v2: "V (SetKey 5 True ?c) = replicate 16 0" and pc2: "PC (SetKey 5 True ?c) = 0x200"
    by (simp_all add: SetKey_def k1 v pc)
  have x: "dec_x 0xF30A = 3" by (simp add: dec_x_def)
  from key_wait [OF f1, of 0] show ?thesis
    using key_wait [OF f2, of 0]
    by (auto simp: k1 k2 v v2 pc pc2 x nth_list_update split: if_splits)
qed

section \<open>What a step writes to memory\<close>

lemma unat_I_plus:
  "unat (a :: u16) + i < 65536 \<Longrightarrow> unat (a + of_nat i) = unat a + i"
  by (simp add: unat_word_ariths unat_of_nat)

lemma unat_I_plus_1: "unat (a :: u16) < 4096 \<Longrightarrow> unat (a + 1) = unat a + 1"
  using unat_I_plus [of a 1] by simp

lemma unat_I_plus_2: "unat (a :: u16) < 4096 \<Longrightarrow> unat (a + 2) = unat a + 2"
  using unat_I_plus [of a 2] by simp

lemma storeRegs_low:
  "storeRegs is c = Inr c' \<Longrightarrow> \<forall>i\<in>set is. a \<noteq> unat (I c + of_nat i) \<Longrightarrow>
   memory c' ! a = memory c ! a"
proof (induction "is" arbitrary: c)
  case Nil
  then show ?case by simp
next
  case (Cons i rest)
  let ?a = "unat (I c + of_nat i)"
  let ?c1 = "c\<lparr>memory := (memory c)[?a := V c ! i]\<rparr>"
  from Cons.prems(1) have rest: "storeRegs rest ?c1 = Inr c'"
    by (simp add: Let_def split: if_splits)
  have "\<forall>j\<in>set rest. a \<noteq> unat (I ?c1 + of_nat j)"
    using Cons.prems(2) by simp
  from Cons.IH [OF rest this] have "memory c' ! a = memory ?c1 ! a" .
  also have "\<dots> = memory c ! a"
    using Cons.prems(2) by simp
  finally show ?case .
qed

lemma storeRegs_first:
  "storeRegs [0..<Suc n] c = Inr c' \<Longrightarrow> unat (I c) < length (memory c)"
proof -
  assume a: "storeRegs [0..<Suc n] c = Inr c'"
  have "[0..<Suc n] = 0 # [Suc 0..<Suc n]"
    by (rule upt_conv_Cons) simp
  with a have "storeRegs (0 # [Suc 0..<Suc n]) c = Inr c'" by simp
  then show ?thesis
    by (simp add: Let_def split: if_splits)
qed

lemma exec_F_memory:
  assumes "exec_F opcode x c = Inr c'"
    and "opcode AND 0x00FF \<noteq> 0x0033" and "opcode AND 0x00FF \<noteq> 0x0055"
  shows "memory c' = memory c"
  using assms
  by (auto simp: exec_F_def op_plain_defs op_Fx15_def op_Fx18_def op_Fx65_def Let_def
      split: if_splits sum.splits option.splits dest: loadRegs_frame)

lemma executeOpcode_memory:
  assumes "executeOpcode rnd opcode c = Inr c'" and "\<not> is_Fx33 opcode" and "\<not> is_Fx55 opcode"
  shows "memory c' = memory c"
proof (cases "opcode AND 0xF000 = 0xF000")
  case True
  with assms(1) have "exec_F opcode (dec_x opcode) c = Inr c'"
    by (simp add: executeOpcode_def Let_def)
  with assms(2,3) True show ?thesis
    by (simp add: is_Fx33_def is_Fx55_def exec_F_memory)
next
  case False
  with assms(1) show ?thesis
    by (auto simp: executeOpcode_def Let_def op_plain_defs op_2nnn_def exec_8_frame
        split: if_splits dest: exec_0_frame exec_E_frame op_Dxyn_frame)
qed

lemma LoadROM_low:
  assumes "length (memory c) = 4096" and "a < 0x200"
  shows "memory (fst (LoadROM rom c)) ! a = memory c ! a"
  using assms by (simp add: LoadROM_def nth_append)

lemma op_Fx33_sharp:
  assumes "op_Fx33 x c = Inr c'" and "length (memory c) = 4096"
  shows "unat (I c) + 2 < 4096 \<and>
         memory c' = (memory c)[unat (I c) := V c ! unat x div 100,
                                unat (I c) + 1 := (V c ! unat x div 10) mod 10,
                                unat (I c) + 2 := V c ! unat x mod 10]"
proof -
  from assms(1) have inb: "unat (I c) < length (memory c)"
    by (simp add: op_Fx33_def split: if_splits)
  with assms(2) have lt: "unat (I c) < 4096" by simp
  note p1 = unat_I_plus_1 [OF lt] and p2 = unat_I_plus_2 [OF lt]
  from assms have b1: "unat (I c) + 1 < 4096"
    by (simp add: op_Fx33_def Let_def p1 split: if_splits)
  from assms b1 have b2: "unat (I c) + 2 < 4096"
    by (simp add: op_Fx33_def Let_def p1 p2 split: if_splits)
  from assms(1) inb have
    "memory c' = (memory c)[unat (I c) := V c ! unat x div 100,
                            unat (I c + 1) := (V c ! unat x div 10) mod 10,
                            unat (I c + 2) := V c ! unat x mod 10]"
    by (auto simp: op_Fx33_def Let_def split: if_splits)
  with b2 show ?thesis
    by (simp add: p1 p2)
qed

lemma storeRegs_keeps:
  "storeRegs is c = Inr c' \<Longrightarrow>
   V c' = V c \<and> I c' = I c \<and> length (memory c') = length (memory c) \<and>
   (\<forall>i\<in>set is. unat (I c + of_nat i) < length (memory c))"
proof (induction "is" arbitrary: c)
  case Nil
  then show ?case by simp
next
  case (Cons i rest)
  let ?a = "unat (I c + of_nat i)"
  let ?c1 = "c\<lparr>memory := (memory c)[?a := V c ! i]\<rparr>"
  from Cons.prems have inb: "?a < length (memory c)" and rest: "storeRegs rest ?c1 = Inr c'"
    by (simp_all add: Let_def split: if_splits)
  from Cons.IH [OF rest] inb show ?case by simp
qed

lemma storeRegs_written:
  "storeRegs is c = Inr c' \<Longrightarrow> distinct is \<Longrightarrow>
   inj_on (\<lambda>i. unat (I c + of_nat i)) (set is) \<Longrightarrow>
   \<forall>i\<in>set is. memory c' ! unat (I c + of_nat i) = V c ! i"
proof (induction "is" arbitrary: c)
  case Nil
  then show ?case by simp
next
  case (Cons i rest)
  let ?a = "unat (I c + of_nat i)"
  let ?c1 = "c\<lparr>memory := (memory c)[?a := V c ! i]\<rparr>"
  from Cons.prems(1) have inb: "?a < length (memory c)" and rest: "storeRegs rest ?c1 = Inr c'"
    by (simp_all add: Let_def split: if_splits)
  have inj: "inj_on (\<lambda>j. unat (I ?c1 + of_nat j)) (set rest)"
    using Cons.prems(3) by (simp add: inj_on_def)
  from Cons.prems(2) have d: "distinct rest" and ni: "i \<notin> set rest" by simp_all
  from Cons.IH [OF rest d inj]
  have tail: "\<forall>j\<in>set rest. memory c' ! unat (I c + of_nat j) = V c ! j" by simp
  have "\<forall>j\<in>set rest. ?a \<noteq> unat (I ?c1 + of_nat j)"
  proof
    fix j assume j: "j \<in> set rest"
    with ni have "i \<noteq> j" by blast
    with Cons.prems(3) j show "?a \<noteq> unat (I ?c1 + of_nat j)"
      by (auto simp: inj_on_def)
  qed
  from storeRegs_low [OF rest this] inb have "memory c' ! ?a = V c ! i" by simp
  with tail show ?case by simp
qed

lemma op_Fx55_sharp:
  assumes "op_Fx55 x c = Inr c'" and "length (memory c) = 4096"
  shows "unat (I c) + unat x < 4096 \<and> length (memory c') = 4096 \<and>
         (\<forall>a. memory c' ! a =
               (if unat (I c) \<le> a \<and> a \<le> unat (I c) + unat x then V c ! (a - unat (I c))
                else memory c ! a))"
proof -
  from assms(1) obtain c1 where st: "storeRegs [0..<Suc (unat x)] c = Inr c1"
    and c': "c' = c1\<lparr>PC := PC c1 + 2\<rparr>"
    by (auto simp: op_Fx55_def split: sum.splits)
  from storeRegs_first [OF st] assms(2) have lt: "unat (I c) < 4096" by simp
  have addr: "unat (I c + of_nat i) = unat (I c) + i" if "i \<le> unat x" for i
  proof -
    from that have "i < 256" using unat_u8_lt [of x] by simp
    with lt show ?thesis by (simp add: unat_I_plus)
  qed
  from storeRegs_keeps [OF st] assms(2)
  have len: "length (memory c1) = 4096"
    and inb: "\<forall>i\<in>set [0..<Suc (unat x)]. unat (I c + of_nat i) < 4096" by simp_all
  have top: "unat (I c) + unat x < 4096"
    using inb [THEN bspec, of "unat x"] addr [of "unat x"] by simp
  have inj: "inj_on (\<lambda>i. unat (I c + of_nat i)) (set [0..<Suc (unat x)])"
  proof (rule inj_onI)
    fix i j
    assume "i \<in> set [0..<Suc (unat x)]" and "j \<in> set [0..<Suc (unat x)]"
      and e: "unat (I c + of_nat i) = unat (I c + of_nat j)"
    then have "i \<le> unat x" and "j \<le> unat x" by auto
    then have "unat (I c + of_nat i) = unat (I c) + i" and "unat (I c + of_nat j) = unat (I c) + j"
      by (simp_all only: addr)
    with e show "i = j" by simp
  qed
  note written = storeRegs_written [OF st distinct_upt inj]
  have wr: "memory c1 ! (unat (I c) + i) = V c ! i" if "i \<le> unat x" for i
  proof -
    from that have "i \<in> set [0..<Suc (unat x)]" by auto
    with written have "memory c1 ! unat (I c + of_nat i) = V c ! i" by blast
    then show ?thesis by (simp only: addr [OF that])
  qed
  have "memory c1 ! a =
          (if unat (I c) \<le> a \<and> a \<le> unat (I c) + unat x then V c ! (a - unat (I c))
           else memory c ! a)" for a
  proof (cases "unat (I c) \<le> a \<and> a \<le> unat (I c) + unat x")
    case True
    then have "a - unat (I c) \<le> unat x" by arith
    then have "memory c1 ! (unat (I c) + (a - unat (I c))) = V c ! (a - unat (I c))" by (rule wr)
    with True show ?thesis by simp
  next
    case False
    have "\<forall>i\<in>set [0..<Suc (unat x)]. a \<noteq> unat (I c + of_nat i)"
    proof
      fix i assume "i \<in> set [0..<Suc (unat x)]"
      then have "i \<le> unat x" by auto
      with False show "a \<noteq> unat (I c + of_nat i)" by (auto simp: addr)
    qed
    from storeRegs_low [OF st this] False show ?thesis by auto
  qed
  with top len c' show ?thesis by simp
qed


lemma exec_Fx33:
  "is_Fx33 opcode \<Longrightarrow> executeOpcode rnd opcode c = op_Fx33 (dec_x opcode) c"
  by (simp add: is_Fx33_def executeOpcode_def exec_F_def Let_def)

lemma exec_Fx55:
  "is_Fx55 opcode \<Longrightarrow> executeOpcode rnd opcode c = op_Fx55 (dec_x opcode) c"
  by (simp add: is_Fx55_def executeOpcode_def exec_F_def Let_def)

lemma step_memory:
  assumes f: "fetchOpcode c = Inr opcode" and step: "EmulateCycle rnd c = Inr c'"
    and len: "length (memory c) = 4096"
  shows "(\<not> is_Fx33 opcode \<and> \<not> is_Fx55 opcode \<longrightarrow> memory c' = memory c) \<and>
     (is_Fx33 opcode \<longrightarrow>
        unat (I c) + 2 < 4096 \<and>
        memory c' = (memory c)[unat (I c) := V c ! unat (dec_x opcode) div 100,
                               unat (I c) + 1 := (V c ! unat (dec_x opcode) div 10) mod 10,
                               unat (I c) + 2 := V c ! unat (dec_x opcode) mod 10]) \<and>
     (is_Fx55 opcode \<longrightarrow>
        unat (I c) + unat (dec_x opcode) < 4096 \<and> length (memory c') = 4096 \<and>
        (\<forall>a. memory c' ! a =
           (if unat (I c) \<le> a \<and> a \<le> unat (I c) + unat (dec_x opcode)
            then V c ! (a - unat (I c)) else memory c ! a)))"
proof -
  from f step obtain c1 where e: "executeOpcode rnd opcode c = Inr c1"
    and c': "c' = updateTimers c1"
    by (auto simp: EmulateCycle_def split: sum.splits)
  have m: "memory c' = memory c1" by (simp add: c' updateTimers_keeps)
  have "\<not> is_Fx33 opcode \<Longrightarrow> \<not> is_Fx55 opcode \<Longrightarrow> memory c' = memory c"
    using executeOpcode_memory [OF e] m by simp
  moreover have "is_Fx33 opcode \<Longrightarrow>
        unat (I c) + 2 < 4096 \<and>
        memory c' = (memory c)[unat (I c) := V c ! unat (dec_x opcode) div 100,
                               unat (I c) + 1 := (V c ! unat (dec_x opcode) div 10) mod 10,
                               unat (I c) + 2 := V c ! unat (dec_x opcode) mod 10]"
    using op_Fx33_sharp [of "dec_x opcode" c c1] e len m by (simp add: exec_Fx33)
  moreover have "is_Fx55 opcode \<Longrightarrow>
        unat (I c) + unat (dec_x opcode) < 4096 \<and> length (memory c') = 4096 \<and>
        (\<forall>a. memory c' ! a =
           (if unat (I c) \<le> a \<and> a \<le> unat (I c) + unat (dec_x opcode)
            then V c ! (a - unat (I c)) else memory c ! a))"
    using op_Fx55_sharp [of "dec_x opcode" c c1] e len m by (simp add: exec_Fx55)
  ultimately show ?thesis by blast
qed


text \<open>
  Claim C1, as amended. A step that returns changes memory only when the fetched opcode is
  \<^verbatim>\<open>Fx33\<close> or \<^verbatim>\<open>Fx55\<close>, and then only at the addresses it stores to:
  \<^verbatim>\<open>Fx33\<close> writes the three decimal digits of register \<open>x\<close> at \<open>I\<close>, \<open>I+1\<close>,
  \<open>I+2\<close>, and \<^verbatim>\<open>Fx55\<close> writes registers 0 to \<open>x\<close> at \<open>I\<close> to \<open>I+x\<close>, for every
  value of the index register \<open>I\<close> (below 0x200 or not); every other byte keeps its
  value. So no step changes a byte below \<open>I\<close> or above \<open>I+15\<close>, and with \<open>I\<close> at least
  0x200 nothing below 0x200 changes. \<^verbatim>\<open>LoadROM\<close> never changes memory below 0x200;
  \<^verbatim>\<open>SetKey\<close> and \<^verbatim>\<open>DrawFlag\<close> never change memory.
\<close>

theorem step_memory_frame:
  "(fetchOpcode c = Inr opcode \<and> EmulateCycle rnd c = Inr c' \<and> length (memory c) = 4096 \<longrightarrow>
      (\<not> is_Fx33 opcode \<and> \<not> is_Fx55 opcode \<longrightarrow> memory c' = memory c) \<and>
      (is_Fx33 opcode \<longrightarrow>
         unat (I c) + 2 < 4096 \<and>
         memory c' = (memory c)[unat (I c) := V c ! unat (dec_x opcode) div 100,
                                unat (I c) + 1 := (V c ! unat (dec_x opcode) div 10) mod 10,
                                unat (I c) + 2 := V c ! unat (dec_x opcode) mod 10]) \<and>
      (is_Fx55 opcode \<longrightarrow>
         unat (I c) + unat (dec_x opcode) < 4096 \<and> length (memory c') = 4096 \<and>
         (\<forall>a. memory c' ! a =
            (if unat (I c) \<le> a \<and> a \<le> unat (I c) + unat (dec_x opcode)
             then V c ! (a - unat (I c)) else memory c ! a))) \<and>
      (\<forall>a. a < unat (I c) \<or> unat (I c) + 15 < a \<longrightarrow> memory c' ! a = memory c ! a)) \<and>
   (length (memory c) = 4096 \<longrightarrow>
      (\<forall>a<0x200. memory (fst (LoadROM rom c)) ! a = memory c ! a)) \<and>
   memory (SetKey key pressed c) = memory c \<and> memory (fst (DrawFlag c)) = memory c"
proof (intro conjI)
  show "fetchOpcode c = Inr opcode \<and> EmulateCycle rnd c = Inr c' \<and> length (memory c) = 4096 \<longrightarrow>
      (\<not> is_Fx33 opcode \<and> \<not> is_Fx55 opcode \<longrightarrow> memory c' = memory c) \<and>
      (is_Fx33 opcode \<longrightarrow>
         unat (I c) + 2 < 4096 \<and>
         memory c' = (memory c)[unat (I c) := V c ! unat (dec_x opcode) div 100,
                                unat (I c) + 1 := (V c ! unat (dec_x opcode) div 10) mod 10,
                                unat (I c) + 2 := V c ! unat (dec_x opcode) mod 10]) \<and>
      (is_Fx55 opcode \<longrightarrow>
         unat (I c) + unat (dec_x opcode) < 4096 \<and> length (memory c') = 4096 \<and>
         (\<forall>a. memory c' ! a =
            (if unat (I c) \<le> a \<and> a \<le> unat (I c) + unat (dec_x opcode)
             then V c ! (a - unat (I c)) else memory c ! a))) \<and>
      (\<forall>a. a < unat (I c) \<or> unat (I c) + 15 < a \<longrightarrow> memory c' ! a = memory c ! a)"
  proof (rule impI)
    assume h: "fetchOpcode c = Inr opcode \<and> EmulateCycle rnd c = Inr c' \<and>
      length (memory c) = 4096"
    then have sm: "(\<not> is_Fx33 opcode \<and> \<not> is_Fx55 opcode \<longrightarrow> memory c' = memory c) \<and>
      (is_Fx33 opcode \<longrightarrow>
         unat (I c) + 2 < 4096 \<and>
         memory c' = (memory c)[unat (I c) := V c ! unat (dec_x opcode) div 100,
                                unat (I c) + 1 := (V c ! unat (dec_x opcode) div 10) mod 10,
                                unat (I c) + 2 := V c ! unat (dec_x opcode) mod 10]) \<and>
      (is_Fx55 opcode \<longrightarrow>
         unat (I c) + unat (dec_x opcode) < 4096 \<and> length (memory c') = 4096 \<and>
         (\<forall>a. memory c' ! a =
            (if unat (I c) \<le> a \<and> a \<le> unat (I c) + unat (dec_x opcode)
             then V c ! (a - unat (I c)) else memory c ! a)))"
      using step_memory [of c opcode rnd c'] by blast
    have "memory c' ! a = memory c ! a" if a: "a < unat (I c) \<or> unat (I c) + 15 < a" for a
    proof (cases "is_Fx33 opcode")
      case True
      with sm have "memory c' = (memory c)[unat (I c) := V c ! unat (dec_x opcode) div 100,
                                unat (I c) + 1 := (V c ! unat (dec_x opcode) div 10) mod 10,
                                unat (I c) + 2 := V c ! unat (dec_x opcode) mod 10]" by blast
      with a show ?thesis by auto
    next
      case n33: False
      show ?thesis
      proof (cases "is_Fx55 opcode")
        case True
        with sm have "memory c' ! a =
            (if unat (I c) \<le> a \<and> a \<le> unat (I c) + unat (dec_x opcode)
             then V c ! (a - unat (I c)) else memory c ! a)" by blast
        with a dec_x_lt [of opcode] show ?thesis by auto
      next
        case False
        with n33 sm show ?thesis by simp
      qed
    qed
    with sm show "(\<not> is_Fx33 opcode \<and> \<not> is_Fx55 opcode \<longrightarrow> memory c' = memory c) \<and>
      (is_Fx33 opcode \<longrightarrow>
         unat (I c) + 2 < 4096 \<and>
         memory c' = (memory c)[unat (I c) := V c ! unat (dec_x opcode) div 100,
                                unat (I c) + 1 := (V c ! unat (dec_x opcode) div 10) mod 10,
                                unat (I c) + 2 := V c ! unat (dec_x opcode) mod 10]) \<and>
      (is_Fx55 opcode \<longrightarrow>
         unat (I c) + unat (dec_x opcode) < 4096 \<and> length (memory c') = 4096 \<and>
         (\<forall>a. memory c' ! a =
            (if unat (I c) \<le> a \<and> a \<le> unat (I c) + unat (dec_x opcode)
             then V c ! (a - unat (I c)) else memory c ! a))) \<and>
      (\<forall>a. a < unat (I c) \<or> unat (I c) + 15 < a \<longrightarrow> memory c' ! a = memory c ! a)"
      by blast
  qed
  show "length (memory c) = 4096 \<longrightarrow>
      (\<forall>a<0x200. memory (fst (LoadROM rom c)) ! a = memory c ! a)"
    by (simp add: LoadROM_low)
  show "memory (SetKey key pressed c) = memory c"
    by (simp add: SetKey_def)
  show "memory (fst (DrawFlag c)) = memory c"
    by (simp add: DrawFlag_def)
qed


lemma bcd_program:
  "fetchOpcode (fst (LoadROM [0xF0, 0x33] New)\<lparr>I := i\<rparr>) = Inr 0xF033"
  using fetch_loaded [of "0xF0" "0x33"]
    fetchOpcode_cong [of "fst (LoadROM [0xF0, 0x33] New)\<lparr>I := i\<rparr>" "fst (LoadROM [0xF0, 0x33] New)"]
  by simp

lemma bcd_program_fields:
  "length (memory (fst (LoadROM [0xF0, 0x33] New))) = 4096"
  "memory (fst (LoadROM [0xF0, 0x33] New)) ! 0 = 0xF0"
  "V (fst (LoadROM [0xF0, 0x33] New)) = replicate 16 0"
  "I (fst (LoadROM [0xF0, 0x33] New)) = 0"
  using memory_LoadROM_New [of "[0xF0, 0x33]"]
  by (simp_all add: length_fontset nth_append) (simp_all add: fontset_def LoadROM_def fields_New)

lemma exec_F033:
  "executeOpcode rnd 0xF033 c = op_Fx33 0 c"
  by (simp add: executeOpcode_def exec_F_def dec_x_def Let_def)

lemma store_program:
  "fetchOpcode (fst (LoadROM [0xF1, 0x55] New)\<lparr>V := v\<rparr>) = Inr 0xF155"
  using fetch_loaded [of "0xF1" "0x55"]
    fetchOpcode_cong [of "fst (LoadROM [0xF1, 0x55] New)\<lparr>V := v\<rparr>" "fst (LoadROM [0xF1, 0x55] New)"]
  by simp

lemma store_program_fields:
  "length (memory (fst (LoadROM [0xF1, 0x55] New))) = 4096"
  "memory (fst (LoadROM [0xF1, 0x55] New)) ! 0 = 0xF0"
  "memory (fst (LoadROM [0xF1, 0x55] New)) ! 2 = 0x90"
  "I (fst (LoadROM [0xF1, 0x55] New)) = 0"
  using memory_LoadROM_New [of "[0xF1, 0x55]"]
  by (simp_all add: length_fontset nth_append) (simp_all add: fontset_def LoadROM_def fields_New)

lemma exec_F155:
  "executeOpcode rnd 0xF155 c = op_Fx55 1 c"
  by (simp add: executeOpcode_def exec_F_def dec_x_def Let_def)

lemma upt_0_2: "[0..<Suc (Suc 0)] = [0, Suc 0]"
  by (simp add: upt_rec)

theorem step_memory_frame_witness:
  "\<not> isl (EmulateCycle 0 (fst (LoadROM [0xF0, 0x33] New)\<lparr>I := 0x100\<rparr>)) \<and>
   memory (projr (EmulateCycle 0 (fst (LoadROM [0xF0, 0x33] New)\<lparr>I := 0x100\<rparr>))) ! 0 = 0xF0 \<and>
   \<not> isl (EmulateCycle 0 (fst (LoadROM [0xF1, 0x55] New)\<lparr>V := [0xAB, 0xCD] @ replicate 14 0\<rparr>)) \<and>
   memory (projr (EmulateCycle 0
     (fst (LoadROM [0xF1, 0x55] New)\<lparr>V := [0xAB, 0xCD] @ replicate 14 0\<rparr>))) ! 0 = 0xAB \<and>
   memory (projr (EmulateCycle 0
     (fst (LoadROM [0xF1, 0x55] New)\<lparr>V := [0xAB, 0xCD] @ replicate 14 0\<rparr>))) ! 1 = 0xCD \<and>
   memory (projr (EmulateCycle 0
     (fst (LoadROM [0xF1, 0x55] New)\<lparr>V := [0xAB, 0xCD] @ replicate 14 0\<rparr>))) ! 2 = 0x90"
proof -
  let ?c = "fst (LoadROM [0xF0, 0x33] New)\<lparr>I := 0x100\<rparr>"
  let ?d = "fst (LoadROM [0xF1, 0x55] New)\<lparr>V := [0xAB, 0xCD] @ replicate 14 0\<rparr>"
  have "\<exists>c'. EmulateCycle 0 ?c = Inr c'"
    by (simp add: EmulateCycle_def bcd_program exec_F033 op_Fx33_def bcd_program_fields Let_def)
  then obtain c' where stepc: "EmulateCycle 0 ?c = Inr c'" by blast
  have x33: "is_Fx33 0xF033" by (simp add: is_Fx33_def)
  from step_memory_frame [of ?c "0xF033" 0 c'] stepc x33
  have c0: "memory c' ! 0 = 0xF0"
    by (simp add: bcd_program bcd_program_fields)
  have "\<exists>d'. EmulateCycle 0 ?d = Inr d'"
    by (simp add: EmulateCycle_def store_program exec_F155 op_Fx55_def store_program_fields
        Let_def upt_0_2)
  then obtain d' where stepd: "EmulateCycle 0 ?d = Inr d'" by blast
  have x55: "is_Fx55 0xF155" "\<not> is_Fx33 0xF155" "dec_x 0xF155 = 1"
    by (simp_all add: is_Fx55_def is_Fx33_def dec_x_def)
  from step_memory_frame [of ?d "0xF155" 0 d'] stepd x55
  have d: "\<forall>a. memory d' ! a = (if a \<le> 1 then ([0xAB, 0xCD] @ replicate 14 0) ! a else memory ?d ! a)"
    by (simp add: store_program store_program_fields)
  from d have "memory d' ! 0 = 0xAB" and "memory d' ! 1 = 0xCD" and "memory d' ! 2 = 0x90"
    by (simp_all add: store_program_fields)
  with c0 stepc stepd show ?thesis by simp
qed

text \<open>
  Claim C1 as stated fails in the state reached from \<^verbatim>\<open>New\<close> by loading the two-byte
  ROM \<^verbatim>\<open>F0 33\<close>: the index register is 0, and one step replaces the first byte of the
  font table, 0xF0, by the hundreds digit 0 of register 0.
\<close>

theorem font_overwritten_counterexample:
  "\<not> isl (EmulateCycle 0 (fst (LoadROM [0xF0, 0x33] New))) \<and>
   memory (projr (EmulateCycle 0 (fst (LoadROM [0xF0, 0x33] New)))) ! 0 = 0 \<and>
   memory (fst (LoadROM [0xF0, 0x33] New)) ! 0 = 0xF0 \<and>
   memory New ! 0 = 0xF0"
proof -
  let ?c = "fst (LoadROM [0xF0, 0x33] New)"
  have f: "fetchOpcode ?c = Inr 0xF033"
    using fetch_loaded [of "0xF0" "0x33"] by simp
  have "memory New ! 0 = 0xF0"
    by (simp add: memory_New nth_append length_fontset) (simp add: fontset_def)
  then show ?thesis
    by (simp add: EmulateCycle_def f exec_F033 op_Fx33_def bcd_program_fields Let_def
        updateTimers_keeps)
qed

section \<open>Sprite drawing: the collision flag\<close>

lemma drawPixel_eq:
  "drawPixel sd xp yp row col c =
     (if spriteBit sd col then
        c\<lparr>V := (if display c ! unat (pixelIndex xp yp row col) = 1 then (V c)[15 := 1] else V c),
          display := (display c)[unat (pixelIndex xp yp row col) :=
                                   display c ! unat (pixelIndex xp yp row col) XOR 1]\<rparr>
      else c)"
  by (simp add: drawPixel_def Let_def)





















lemma lt8_cases: "k < 8 \<Longrightarrow> k = 0 \<or> k = 1 \<or> k = 2 \<or> k = 3 \<or> k = 4 \<or> k = 5 \<or> k = 6 \<or> k = (7::nat)"
  by arith

lemma spriteBit_single:
  assumes "k < 8" and "col < 8"
  shows "spriteBit (drop_bit k 0x80) (of_nat col) = (col = k)"
  using lt8_cases [OF assms(1)] lt8_cases [OF assms(2)]
  by (elim disjE) (simp_all add: spriteBit_def)

lemma drawCols_none:
  "\<forall>col\<in>set cols. \<not> spriteBit sd (of_nat col) \<Longrightarrow> drawCols sd xp yp row cols c = c"
  by (induction cols arbitrary: c) (simp_all add: drawPixel_eq)

lemma drawCols_only:
  "k \<in> set cols \<Longrightarrow> distinct cols \<Longrightarrow> \<forall>col\<in>set cols. col \<noteq> k \<longrightarrow> \<not> spriteBit sd (of_nat col) \<Longrightarrow>
   drawCols sd xp yp row cols c = drawPixel sd xp yp row (of_nat k) c"
proof (induction cols arbitrary: c)
  case Nil
  then show ?case by simp
next
  case (Cons a cols)
  show ?case
  proof (cases "a = k")
    case True
    with Cons.prems have "\<forall>col\<in>set cols. \<not> spriteBit sd (of_nat col)" by auto
    then show ?thesis using True by (simp add: drawCols_none)
  next
    case False
    with Cons.prems have "\<not> spriteBit sd (of_nat a)" and "k \<in> set cols" and "distinct cols"
      and "\<forall>col\<in>set cols. col \<noteq> k \<longrightarrow> \<not> spriteBit sd (of_nat col)" by auto
    then show ?thesis using Cons.IH by (simp add: drawPixel_eq)
  qed
qed

lemma drawCols_single:
  assumes "k < 8"
  shows "drawCols (drop_bit k 0x80) xp yp row [0..<8] c =
           drawPixel (drop_bit k 0x80) xp yp row (of_nat k) c"
proof (rule drawCols_only)
  show "k \<in> set [0..<8]" using assms by simp
  show "distinct [0..<8]" by (rule distinct_upt)
  show "\<forall>col\<in>set [0..<8]. col \<noteq> k \<longrightarrow> \<not> spriteBit (drop_bit k 0x80) (word_of_nat col)"
  proof (intro ballI impI)
    fix col assume "col \<in> set [0..<8]" and ne: "col \<noteq> k"
    then have "col < 8" by (simp only: set_upt atLeastLessThan_iff)
    from spriteBit_single [OF assms this] ne
    show "\<not> spriteBit (drop_bit k 0x80) (word_of_nat col)" by simp
  qed
qed


lemma index_arith:
  assumes "b < 64"
  shows "(a * 64 + b) mod 256 = 64 * (a mod 4) + (b :: nat)"
proof -
  define q r where "q = a div 4" and "r = a mod 4"
  have a: "a = 4 * q + r" by (simp add: q_def r_def)
  have "a * 64 + b = q * 256 + (64 * r + b)"
    by (simp add: a)
  then have "(a * 64 + b) mod 256 = (64 * r + b) mod 256"
    by (simp only: mod_mult_self3)
  moreover have "r < 4" by (simp add: r_def)
  then have "64 * r + b < 256" using assms by linarith
  ultimately show ?thesis by (simp add: r_def)
qed

lemma unat_pixelIndex:
  "unat (pixelIndex xPos yPos row col) =
     64 * (unat ((yPos + row) mod 32) mod 4) + unat ((xPos + col) mod 64)"
proof -
  have b: "unat ((xPos + col) mod 64) < 64"
    by (simp add: unat_mod)
  have "unat (pixelIndex xPos yPos row col) =
          (unat ((yPos + row) mod 32) * 64 + unat ((xPos + col) mod 64)) mod 256"
    by (simp add: pixelIndex_def Let_def unat_word_ariths mod_simps)
  also have "\<dots> = 64 * (unat ((yPos + row) mod 32) mod 4) + unat ((xPos + col) mod 64)"
    using b by (rule index_arith)
  finally show ?thesis .
qed



lemma drawRows_one:
  "unat (I c) < length (memory c) \<Longrightarrow>
   drawRows xp yp [0..<unat (1 :: u8)] c =
     Inr (drawCols (memory c ! unat (I c)) xp yp 0 [0..<8] c)"
  by (simp add: Let_def)

lemma draw_single:
  assumes k: "k < 8" and inb: "unat (I c) < length (memory c)"
    and sd: "memory c ! unat (I c) = drop_bit k 0x80"
    and p: "p = unat (pixelIndex ((V c)[15 := 0] ! unat x mod 64) ((V c)[15 := 0] ! unat y mod 32)
                        0 (of_nat k))"
  shows "drawSprite x y 1 c =
           Inr (c\<lparr>V := (V c)[15 := (if display c ! p = 1 then 1 else 0)],
                  display := (display c)[p := display c ! p XOR 1],
                  drawFlag := True\<rparr>)"
proof -
  let ?c0 = "c\<lparr>V := (V c)[15 := 0]\<rparr>"
  let ?xp = "(V c)[15 := 0] ! unat x mod 64" and ?yp = "(V c)[15 := 0] ! unat y mod 32"
  have "drawRows ?xp ?yp [0..<unat (1 :: u8)] ?c0 =
          Inr (drawCols (memory ?c0 ! unat (I ?c0)) ?xp ?yp 0 [0..<8] ?c0)"
    using inb by (intro drawRows_one) simp
  also have "drawCols (memory ?c0 ! unat (I ?c0)) ?xp ?yp 0 [0..<8] ?c0 =
          drawPixel (drop_bit k 0x80) ?xp ?yp 0 (of_nat k) ?c0"
    using drawCols_single [OF k, of ?xp ?yp 0 ?c0] sd by simp
  finally have rows: "drawRows ?xp ?yp [0..<unat (1 :: u8)] ?c0 =
          Inr (drawPixel (drop_bit k 0x80) ?xp ?yp 0 (of_nat k) ?c0)" .
  have bit: "spriteBit (drop_bit k 0x80) (of_nat k)"
    using spriteBit_single [OF k k] by simp
  have "drawSprite x y 1 c =
          (case drawRows ?xp ?yp [0..<unat (1 :: u8)] ?c0 of
             Inl e \<Rightarrow> Inl e | Inr c \<Rightarrow> Inr (c\<lparr>drawFlag := True\<rparr>))"
    by (simp add: drawSprite_def Let_def)
  also have "\<dots> = Inr ((drawPixel (drop_bit k 0x80) ?xp ?yp 0 (of_nat k) ?c0)\<lparr>drawFlag := True\<rparr>)"
    by (simp only: rows sum.case)
  finally show ?thesis
    using bit by (simp add: drawPixel_eq p)
qed

















lemma font_byte_5: "memory New ! 5 = 0x20"
  by (simp add: memory_New nth_append length_fontset) (simp add: fontset_def)

lemma length_memory_New: "length (memory New) = 4096"
  by (simp add: memory_New length_fontset)




section \<open>Sprite drawing: where a pixel lands\<close>

text \<open>The parts of the wrap-around that hold: the column of the target pixel, the columns
  of a row drawn from x = 60, and that a sprite bit of value 0 changes nothing.\<close>

lemma pixelIndex_column:
  "unat (pixelIndex xPos yPos row col) mod 64 = unat ((xPos + col) mod 64)"
proof -
  have "unat ((xPos + col) mod 64) < 64"
    by (simp add: unat_mod)
  then show ?thesis
    by (simp add: unat_pixelIndex)
qed

lemma columns_from_60:
  assumes "col < 8"
  shows "unat (pixelIndex 60 yPos row (of_nat col)) mod 64 = [60, 61, 62, 63, 0, 1, 2, 3] ! col"
  using lt8_cases [OF assms]
  by (elim disjE) (simp_all add: pixelIndex_column)

lemma zero_bit_no_change:
  "\<not> spriteBit spriteData col \<Longrightarrow> drawPixel spriteData xPos yPos row col c = c"
  by (simp add: drawPixel_def)

lemma pixelIndex_0402: "unat (pixelIndex 0 4 0 2) = 2"
  by (simp add: pixelIndex_def)

lemma dec_D011: "dec_x 0xD011 = 0" "dec_y 0xD011 = 1" "dec_n 0xD011 = 1"
  by (simp_all add: dec_x_def dec_y_def dec_n_def)

text \<open>
  Claim C5. The framebuffer index of the pixel a sprite bit lands on is computed in 8 bits,
  so it is 64 times \<open>((yPos + row) mod 32) mod 4\<close> plus \<open>(xPos + col) mod 64\<close>: the column is
  reduced modulo 64, but the row ends up reduced modulo 4, not modulo 32. With register 1
  holding 4 and the index register at the glyph byte 0x20, the opcode \<^verbatim>\<open>D011\<close> draws at
  origin (0, 4): the code inverts pixel 2, which is column 2 of row 0, and pixel 258, which
  is column 2 of row 4, stays 0.
\<close>

theorem sprite_row_index_truncated:
  "unat (pixelIndex xPos yPos row col) =
     64 * (unat ((yPos + row) mod 32) mod 4) + unat ((xPos + col) mod 64) \<and>
   executeOpcode 0 0xD011 (New\<lparr>V := (V New)[1 := 4], I := 5\<rparr>) =
     Inr (New\<lparr>V := (V New)[1 := 4], I := 5\<rparr>
            \<lparr>V := (V New)[1 := 4, 15 := 0], PC := 0x202, display := (display New)[2 := 1],
             drawFlag := True\<rparr>) \<and>
   (display New)[2 := 1] ! 258 = 0 \<and>
   (display New)[2 := 1] ! 2 = 1"
proof -
  let ?c = "New\<lparr>V := (V New)[1 := 4], I := 5\<rparr>"
  have bit: "drop_bit 2 (0x80 :: u8) = 0x20" by simp
  have two: "(2 :: nat) < 8" by simp
  have inb: "unat (I ?c) < length (memory ?c)"
    by (simp add: length_memory_New)
  have sd: "memory ?c ! unat (I ?c) = drop_bit 2 0x80"
    by (simp add: font_byte_5)
  have p: "2 = unat (pixelIndex ((V ?c)[15 := 0] ! unat (0 :: u8) mod 64)
                       ((V ?c)[15 := 0] ! unat (1 :: u8) mod 32) 0 (of_nat 2))"
    by (simp add: fields_New pixelIndex_0402)
  from draw_single [OF two inb sd p]
  have "drawSprite 0 1 1 ?c =
          Inr (?c\<lparr>V := (V New)[1 := 4, 15 := 0], display := (display New)[2 := 1],
                  drawFlag := True\<rparr>)"
    by (simp add: fields_New)
  then have "executeOpcode 0 0xD011 ?c =
     Inr (?c\<lparr>V := (V New)[1 := 4, 15 := 0], PC := 0x202, display := (display New)[2 := 1],
             drawFlag := True\<rparr>)"
    by (simp add: executeOpcode_def op_Dxyn_def dec_D011 Let_def fields_New)
  moreover have "(display New)[2 := 1] ! 258 = 0" and "(display New)[2 := 1] ! 2 = 1"
    by (simp_all add: fields_New)
  ultimately show ?thesis
    by (simp only: unat_pixelIndex simp_thms)
qed

end
